theory Spec2Isabelle
  imports Main "HOL-Library.Word"
begin

section \<open>The container\<close>

text \<open>
  The Go struct \<^verbatim>\<open>ParallelMap\<close> has four fields: the map, the operation channel
  \<^verbatim>\<open>Op\<close>, the wait group \<^verbatim>\<open>wg\<close> and the update function.

  The map has type \<^verbatim>\<open>map[interface{}]interface{}\<close>. A key is a dynamic value, and Go
  compares keys with \<^verbatim>\<open>==\<close>: \<open>Key x\<close> is a key that equals itself, \<open>NaN\<close> one that
  does not (a floating-point NaN, or an array or struct that holds one). An index
  expression never finds an entry under such a key, and an assignment under it adds an
  entry each time. So a map is its entries under the keys that equal themselves, and the
  values of its entries under the others in the order they were added. Values of an
  unhashable dynamic type (slices, maps, functions) are not keys: Go's map panics on
  them.
\<close>

datatype 'k key = Key 'k | NaN

record ('k, 'v) gomap =
  entries :: "'k \<rightharpoonup> 'v"
  nan_entries :: "'v list"

text \<open>
  The comma-ok index expression \<^verbatim>\<open>value, ok := m[key]\<close>, which yields the zero value
  of the element type (\<^verbatim>\<open>nil\<close> for \<^verbatim>\<open>interface{}\<close>, here the \<open>0\<close> of \<open>'v\<close>) when it
  finds nothing, the test that it finds something, and the assignment
  \<^verbatim>\<open>m[key] = value\<close>.
\<close>

fun map_index :: "('k, 'v::zero) gomap \<Rightarrow> 'k key \<Rightarrow> 'v \<times> bool" where
  "map_index m (Key k) = (case entries m k of None \<Rightarrow> (0, False) | Some v \<Rightarrow> (v, True))"
| "map_index m NaN = (0, False)"

fun present :: "('k, 'v) gomap \<Rightarrow> 'k key \<Rightarrow> bool" where
  "present m (Key k) = (entries m k \<noteq> None)"
| "present m NaN = False"

fun map_assign :: "('k, 'v) gomap \<Rightarrow> 'k key \<Rightarrow> 'v \<Rightarrow> ('k, 'v) gomap" where
  "map_assign m (Key k) v = m\<lparr>entries := (entries m)(k \<mapsto> v)\<rparr>"
| "map_assign m NaN v = m\<lparr>nan_entries := nan_entries m @ [v]\<rparr>"

text \<open>
  The update function is a Go function of two values. A call of it returns a value,
  panics (the one of the repository's test does, on a value that is not an \<^verbatim>\<open>int\<close>),
  or never returns, when the function runs or blocks for ever. \<open>Panics r\<close> carries the
  line that the runtime prints for the panic, \<^verbatim>\<open>panic: \<close> and the message. The wait
  group is its counter. The channel \<^verbatim>\<open>Op\<close> is unbuffered, so it holds no data of its own: a
  goroutine blocked in a send on it is part of the state of that goroutine below.
\<close>

datatype 'v result = Returned 'v | Panics string | Hangs

record ('k, 'v) pmap =
  Map :: "('k, 'v) gomap"
  UpdateValueFunc :: "'v \<Rightarrow> 'v \<Rightarrow> 'v result"
  wg :: int

text \<open>
  A private reply channel made by a call (\<^verbatim>\<open>make(chan ...)\<close>) is named by the goroutine
  that makes it and its position in the method. What travels on it is a stored value
  (\<^verbatim>\<open>chan interface{}\<close>) or a boolean (\<^verbatim>\<open>chan bool\<close>).
\<close>

datatype chan = Chan nat nat

datatype 'v msg = MValue 'v | MBool bool

text \<open>
  A unit of work is a Go closure \<^verbatim>\<open>func() error\<close>. It is a sequence of atomic actions
  of the backend goroutine: an access to the fields of the container, a send on a reply
  channel, and finally the returned error (\<open>None\<close> is \<^verbatim>\<open>nil\<close>, \<open>Some e\<close> an error whose
  \<^verbatim>\<open>Error()\<close> text is \<open>e\<close>), a panic, or a call that never returns.
\<close>

datatype ('k, 'v) work =
    Access "('k, 'v) pmap \<Rightarrow> ('k, 'v) pmap \<times> ('k, 'v) work"
  | Send chan "'v msg" "('k, 'v) work"
  | Return "string option"
  | Panic string
  | Hang

text \<open>\<^verbatim>\<open>this.wg.Done()\<close>\<close>

definition wg_Done :: "('k, 'v) work \<Rightarrow> ('k, 'v) work" where
  "wg_Done w = Access (\<lambda>s. (s\<lparr>wg := wg s - 1\<rparr>, w))"

text \<open>
  The code of a calling goroutine inside a method: an access to the fields of the
  container (\<^verbatim>\<open>this.wg.Add(1)\<close>, the assignment in \<^verbatim>\<open>SetUpdateValueFunc\<close>), the send
  of a closure on \<^verbatim>\<open>this.Op\<close>, a receive from a reply channel, \<^verbatim>\<open>this.wg.Wait()\<close>, and
  the return with the method's results.
\<close>

datatype ('k, 'v) caller =
    Local "('k, 'v) pmap \<Rightarrow> ('k, 'v) pmap" "('k, 'v) caller"
  | SendOp "('k, 'v) work" "('k, 'v) caller"
  | Recv chan "'v msg \<Rightarrow> ('k, 'v) caller"
  | WgWait "('k, 'v) caller"
  | Returns "'v msg list"

definition wg_Add :: "('k, 'v) caller \<Rightarrow> ('k, 'v) caller" where
  "wg_Add p = Local (\<lambda>s. s\<lparr>wg := wg s + 1\<rparr>) p"

subsection \<open>The methods\<close>

text \<open>
  Each method is the code of its caller, statement by statement; \<open>Get_work\<close>,
  \<open>Set_work\<close>, \<open>Update_work\<close> and \<open>ExecuteFunc_work\<close> are the closures the methods
  send on \<^verbatim>\<open>this.Op\<close>. The first argument of a method is the goroutine that calls it,
  which names the channels the call makes: \<^verbatim>\<open>c1\<close> and \<^verbatim>\<open>c2\<close> of \<^verbatim>\<open>Get\<close> are
  \<open>Chan t 1\<close> and \<open>Chan t 2\<close>, \<^verbatim>\<open>c\<close> of the other methods is \<open>Chan t 0\<close>.

  \<^verbatim>\<open>NewParallelMap\<close> makes the empty map and the update function that keeps the new
  value; the backend it starts is the \<open>backend\<close> of a running system below.
  \<^verbatim>\<open>Stop\<close> waits for the counter and stops nothing.
\<close>

definition NewParallelMap :: "('k, 'v) pmap" where
  "NewParallelMap =
     \<lparr>Map = \<lparr>entries = Map.empty, nan_entries = []\<rparr>,
      UpdateValueFunc = (\<lambda>oldValue newValue. Returned newValue), wg = 0\<rparr>"

definition Stop :: "('k, 'v) caller" where
  "Stop = WgWait (Returns [])"

definition Get_work :: "nat \<Rightarrow> 'k key \<Rightarrow> ('k, 'v::zero) work" where
  "Get_work t key =
     Access (\<lambda>s. case map_index (Map s) key of (value, ok) \<Rightarrow>
       (s, Send (Chan t 1) (MValue value)
            (Send (Chan t 2) (MBool ok)
            (wg_Done
            (Return None)))))"

definition Get :: "nat \<Rightarrow> 'k key \<Rightarrow> ('k, 'v::zero) caller" where
  "Get t key =
     wg_Add
     (SendOp (Get_work t key)
     (Recv (Chan t 1) (\<lambda>value. Recv (Chan t 2) (\<lambda>ok. Returns [value, ok]))))"

definition Set_work :: "nat \<Rightarrow> 'k key \<Rightarrow> 'v \<Rightarrow> ('k, 'v) work" where
  "Set_work t key value =
     Access (\<lambda>s.
       (s\<lparr>Map := map_assign (Map s) key value\<rparr>,
        Send (Chan t 0) (MBool True)
        (wg_Done
        (Return None))))"

definition Set :: "nat \<Rightarrow> 'k key \<Rightarrow> 'v \<Rightarrow> ('k, 'v) caller" where
  "Set t key value =
     wg_Add
     (SendOp (Set_work t key value)
     (Recv (Chan t 0) (\<lambda>_. Returns [])))"

definition SetUpdateValueFunc :: "('v \<Rightarrow> 'v \<Rightarrow> 'v result) \<Rightarrow> ('k, 'v) caller" where
  "SetUpdateValueFunc f = Local (\<lambda>s. s\<lparr>UpdateValueFunc := f\<rparr>) (Returns [])"

text \<open>
  In \<^verbatim>\<open>Update\<close> the closure applies \<^verbatim>\<open>this.UpdateValueFunc\<close>, read when the closure
  runs, only in the branch where the key was found. When the call panics or does not
  return, nothing is assigned and the closure goes no further.
\<close>

definition Update_work :: "nat \<Rightarrow> 'k key \<Rightarrow> 'v \<Rightarrow> ('k, 'v::zero) work" where
  "Update_work t key value =
     Access (\<lambda>s. case map_index (Map s) key of (oldValue, ok) \<Rightarrow>
       if ok then
         (case UpdateValueFunc s oldValue value of
            Returned r \<Rightarrow>
              (s\<lparr>Map := map_assign (Map s) key r\<rparr>,
               Send (Chan t 0) (MBool True)
               (wg_Done
               (Return None)))
          | Panics report \<Rightarrow> (s, Panic report)
          | Hangs \<Rightarrow> (s, Hang))
       else
         (s\<lparr>Map := map_assign (Map s) key value\<rparr>,
          Send (Chan t 0) (MBool True)
          (wg_Done
          (Return None))))"

definition Update :: "nat \<Rightarrow> 'k key \<Rightarrow> 'v \<Rightarrow> ('k, 'v::zero) caller" where
  "Update t key value =
     wg_Add
     (SendOp (Update_work t key value)
     (Recv (Chan t 0) (\<lambda>_. Returns [])))"

text \<open>
  The function given to \<^verbatim>\<open>ExecuteFunc\<close> is a closure over the container: it reads and
  writes the exported map and returns an error or \<^verbatim>\<open>nil\<close>.
\<close>

type_synonym ('k, 'v) custom = "('k, 'v) gomap \<Rightarrow> string option \<times> ('k, 'v) gomap"

definition ExecuteFunc_work :: "nat \<Rightarrow> ('k, 'v) custom \<Rightarrow> ('k, 'v) work" where
  "ExecuteFunc_work t f =
     Access (\<lambda>s. case f (Map s) of (err, m) \<Rightarrow>
       (s\<lparr>Map := m\<rparr>,
        Send (Chan t 0) (MBool True)
        (wg_Done
        (Return err))))"

definition ExecuteFunc :: "nat \<Rightarrow> ('k, 'v) custom \<Rightarrow> ('k, 'v) caller" where
  "ExecuteFunc t f =
     wg_Add
     (SendOp (ExecuteFunc_work t f)
     (Recv (Chan t 0) (\<lambda>_. Returns [])))"

section \<open>The running system\<close>

text \<open>
  An execution is an interleaving of atomic steps of the goroutines. A goroutine that
  uses the container runs a list of method calls; the head of \<open>prog\<close> is what is left of
  the call it is in. \<open>results\<close> collects what its calls returned.
\<close>

record ('k, 'v) thread =
  prog :: "('k, 'v) caller list"
  results :: "'v msg list list"

text \<open>
  \<open>backend\<close> is the variable \<^verbatim>\<open>f\<close> of the backend goroutine: \<open>None\<close> while it waits in
  \<^verbatim>\<open>f = <-this.Op\<close>, otherwise what is left of the closure it is running.
  \<open>exited\<close> is the status of the process once it has ended: 1 from \<^verbatim>\<open>os.Exit(1)\<close>,
  2 from a panic that nothing recovers.
\<close>

record ('k, 'v) sys =
  pm :: "('k, 'v) pmap"
  threads :: "('k, 'v) thread list"
  backend :: "('k, 'v) work option"
  stderr :: string
  exited :: "int option"

text \<open>
  The scheduler picks one of: a step of goroutine \<open>t\<close> on its own; the rendezvous on
  \<^verbatim>\<open>this.Op\<close> between goroutine \<open>t\<close> and the waiting backend; a step of the backend inside
  the closure it holds (a send there is a rendezvous with the goroutine receiving on that
  channel). A goroutine at a send on \<^verbatim>\<open>this.Op\<close> or at a receive cannot step on its own,
  and \<^verbatim>\<open>this.wg.Wait()\<close> can only be passed while the counter is zero. A step that
  cannot be taken is \<open>None\<close>.
\<close>

datatype action = Thread nat | Handoff nat | Backend

definition thread_step :: "nat \<Rightarrow> ('k, 'v) sys \<Rightarrow> ('k, 'v) sys option" where
  "thread_step t s =
     (if t < length (threads s) then
        let th = threads s ! t in
        (case prog th of
           Local g p # rest \<Rightarrow>
             Some (s\<lparr>pm := g (pm s), threads := (threads s)[t := th\<lparr>prog := p # rest\<rparr>]\<rparr>)
         | WgWait p # rest \<Rightarrow>
             if wg (pm s) = 0
             then Some (s\<lparr>threads := (threads s)[t := th\<lparr>prog := p # rest\<rparr>]\<rparr>)
             else None
         | Returns r # rest \<Rightarrow>
             Some (s\<lparr>threads := (threads s)[t := th\<lparr>prog := rest, results := results th @ [r]\<rparr>]\<rparr>)
         | _ \<Rightarrow> None)
      else None)"

definition handoff :: "nat \<Rightarrow> ('k, 'v) sys \<Rightarrow> ('k, 'v) sys option" where
  "handoff t s =
     (if t < length (threads s) \<and> backend s = None then
        let th = threads s ! t in
        (case prog th of
           SendOp f p # rest \<Rightarrow>
             Some (s\<lparr>backend := Some f, threads := (threads s)[t := th\<lparr>prog := p # rest\<rparr>]\<rparr>)
         | _ \<Rightarrow> None)
      else None)"

text \<open>
  A send on a reply channel needs the goroutine that made the channel to be receiving on
  it: the message is handed to the continuation of that receive.
\<close>

definition deliver :: "chan \<Rightarrow> 'v msg \<Rightarrow> ('k, 'v) thread list \<Rightarrow> ('k, 'v) thread list option" where
  "deliver c m ths =
     (case c of Chan t i \<Rightarrow>
        if t < length ths then
          (case prog (ths ! t) of
             Recv c' k # rest \<Rightarrow>
               if c' = c then Some (ths[t := (ths ! t)\<lparr>prog := k m # rest\<rparr>]) else None
           | _ \<Rightarrow> None)
        else None)"

text \<open>
  The backend loop: \<^verbatim>\<open>err = f()\<close> runs the closure action by action; when it has
  returned, \<^verbatim>\<open>if err != nil\<close> prints the error and a newline to standard error and
  exits with status 1, otherwise the loop goes back to the receive. Nothing in the
  package recovers a panic: one inside the closure ends the process with status 2,
  after the runtime has printed its report to standard error. Of that report the model
  keeps the first line; the traces of the goroutines, which follow it, are left out.
  Inside a call that never returns the backend takes no further step.
\<close>

definition backend_step :: "('k, 'v) sys \<Rightarrow> ('k, 'v) sys option" where
  "backend_step s =
     (case backend s of
        None \<Rightarrow> None
      | Some (Access g) \<Rightarrow>
          (case g (pm s) of (s', w) \<Rightarrow> Some (s\<lparr>pm := s', backend := Some w\<rparr>))
      | Some (Send c m w) \<Rightarrow>
          (case deliver c m (threads s) of
             None \<Rightarrow> None
           | Some ths \<Rightarrow> Some (s\<lparr>threads := ths, backend := Some w\<rparr>))
      | Some (Return None) \<Rightarrow> Some (s\<lparr>backend := None\<rparr>)
      | Some (Return (Some err)) \<Rightarrow>
          Some (s\<lparr>stderr := stderr s @ err @ [CHR 0x0A], exited := Some 1\<rparr>)
      | Some (Panic report) \<Rightarrow>
          Some (s\<lparr>stderr := stderr s @ report, exited := Some 2\<rparr>)
      | Some Hang \<Rightarrow> None)"

definition step :: "action \<Rightarrow> ('k, 'v) sys \<Rightarrow> ('k, 'v) sys option" where
  "step a s =
     (if exited s \<noteq> None then None
      else case a of
        Thread t \<Rightarrow> thread_step t s
      | Handoff t \<Rightarrow> handoff t s
      | Backend \<Rightarrow> backend_step s)"

fun run :: "action list \<Rightarrow> ('k, 'v) sys \<Rightarrow> ('k, 'v) sys option" where
  "run [] s = Some s"
| "run (a # as) s = (case step a s of None \<Rightarrow> None | Some s' \<Rightarrow> run as s')"

text \<open>The system right after \<^verbatim>\<open>NewParallelMap()\<close>, with the goroutines that will use it.\<close>

definition start :: "('k, 'v) pmap \<Rightarrow> ('k, 'v) caller list list \<Rightarrow> ('k, 'v) sys" where
  "start m ps =
     \<lparr>pm = m, threads = map (\<lambda>p. \<lparr>prog = p, results = []\<rparr>) ps,
      backend = None, stderr = [], exited = None\<rparr>"

section \<open>One unit of work, run to its end\<close>

text \<open>
  What the backend's call \<^verbatim>\<open>err = f()\<close> amounts to when every receive it needs is
  ready: the messages the closure sent, in order, the container afterwards, and how the
  closure ended, by returning an error or \<^verbatim>\<open>nil\<close>, or in a panic, or that it never
  ends.
\<close>

datatype ending = Result "string option" | Crash string | Never

record ('k, 'v) outcome =
  sent :: "(chan \<times> 'v msg) list"
  post :: "('k, 'v) pmap"
  ending :: ending

primrec exec :: "('k, 'v) work \<Rightarrow> ('k, 'v) pmap \<Rightarrow> ('k, 'v) outcome" where
  "exec (Access g) s = (case map_prod id exec (g s) of (s', rest) \<Rightarrow> rest s')"
| "exec (Send c m w) s = (let r = exec w s in r\<lparr>sent := (c, m) # sent r\<rparr>)"
| "exec (Return e) s = \<lparr>sent = [], post = s, ending = Result e\<rparr>"
| "exec (Panic report) s = \<lparr>sent = [], post = s, ending = Crash report\<rparr>"
| "exec Hang s = \<lparr>sent = [], post = s, ending = Never\<rparr>"

text \<open>
  The schedule of one call of goroutine \<open>t\<close> while no other goroutine moves: the
  goroutine up to its send on \<^verbatim>\<open>this.Op\<close>, the hand-over, \<open>n\<close> steps of the backend,
  and the return of the call.
\<close>

definition alone :: "nat \<Rightarrow> nat \<Rightarrow> action list" where
  "alone t n = [Thread t, Handoff t] @ replicate n Backend @ [Thread t]"

section \<open>What the code of a system can do\<close>

text \<open>
  Invariants of running systems are stated on the code in it. \<open>work_keeps I R E w\<close>
  says of the closure \<open>w\<close>, run on containers that satisfy \<open>I\<close>: every access it makes
  takes the container to one that satisfies \<open>I\<close> and is related to it by \<open>R\<close>, and the
  way it ends, with an error, with \<^verbatim>\<open>nil\<close>, in a panic or never, satisfies \<open>E\<close>.
  \<open>caller_keeps\<close> says the same of the code of a calling goroutine and of the closures
  it sends, \<open>sys_keeps\<close> of all the code of a system and of its container.
\<close>

inductive work_keeps ::
  "(('k, 'v) pmap \<Rightarrow> bool) \<Rightarrow> (('k, 'v) pmap \<Rightarrow> ('k, 'v) pmap \<Rightarrow> bool) \<Rightarrow> (ending \<Rightarrow> bool) \<Rightarrow>
   ('k, 'v) work \<Rightarrow> bool"
  for I R E where
    keeps_Return: "E (Result e) \<Longrightarrow> work_keeps I R E (Return e)"
  | keeps_Panic: "E (Crash r) \<Longrightarrow> work_keeps I R E (Panic r)"
  | keeps_Hang: "E Never \<Longrightarrow> work_keeps I R E Hang"
  | keeps_Send: "work_keeps I R E w \<Longrightarrow> work_keeps I R E (Send c m w)"
  | keeps_Access:
      "(\<forall>s. I s \<longrightarrow> I (fst (g s)) \<and> R s (fst (g s)) \<and> work_keeps I R E (snd (g s))) \<Longrightarrow>
       work_keeps I R E (Access g)"

inductive caller_keeps ::
  "(('k, 'v) pmap \<Rightarrow> bool) \<Rightarrow> (('k, 'v) pmap \<Rightarrow> ('k, 'v) pmap \<Rightarrow> bool) \<Rightarrow> (ending \<Rightarrow> bool) \<Rightarrow>
   ('k, 'v) caller \<Rightarrow> bool"
  for I R E where
    keeps_Local:
      "(\<forall>s. I s \<longrightarrow> I (g s) \<and> R s (g s)) \<Longrightarrow> caller_keeps I R E p \<Longrightarrow> caller_keeps I R E (Local g p)"
  | keeps_SendOp:
      "work_keeps I R E w \<Longrightarrow> caller_keeps I R E p \<Longrightarrow> caller_keeps I R E (SendOp w p)"
  | keeps_Recv: "(\<forall>m. caller_keeps I R E (k m)) \<Longrightarrow> caller_keeps I R E (Recv c k)"
  | keeps_WgWait: "caller_keeps I R E p \<Longrightarrow> caller_keeps I R E (WgWait p)"
  | keeps_Returns: "caller_keeps I R E (Returns r)"

definition sys_keeps ::
  "(('k, 'v) pmap \<Rightarrow> bool) \<Rightarrow> (('k, 'v) pmap \<Rightarrow> ('k, 'v) pmap \<Rightarrow> bool) \<Rightarrow> (ending \<Rightarrow> bool) \<Rightarrow>
   ('k, 'v) sys \<Rightarrow> bool" where
  "sys_keeps I R E s \<longleftrightarrow>
     I (pm s) \<and>
     (\<forall>th \<in> set (threads s). \<forall>p \<in> set (prog th). caller_keeps I R E p) \<and>
     (\<forall>w. backend s = Some w \<longrightarrow> work_keeps I R E w)"

text \<open>
  The methods that are not \<^verbatim>\<open>ExecuteFunc\<close>. An update function \<open>returns\<close> when
  every call of it returns, and a call is \<open>careful\<close> when it installs no other update
  function.
\<close>

definition builtin :: "('k, 'v::zero) caller \<Rightarrow> bool" where
  "builtin c \<longleftrightarrow>
     (\<exists>t k. c = Get t k) \<or> (\<exists>t k v. c = Set t k v) \<or> (\<exists>t k v. c = Update t k v) \<or>
     (\<exists>f. c = SetUpdateValueFunc f) \<or> c = Stop"



text \<open>
  The calls that do not write an entry that a lookup of \<open>k\<close> finds: any \<^verbatim>\<open>Get\<close>, a
  \<^verbatim>\<open>Set\<close> or \<^verbatim>\<open>Update\<close> of another key or of a key that does not equal itself, and an
  \<^verbatim>\<open>ExecuteFunc\<close> whose function leaves \<open>k\<close> absent where it is absent.
\<close>

definition spares :: "'k key \<Rightarrow> ('k, 'v::zero) caller \<Rightarrow> bool" where
  "spares k c \<longleftrightarrow>
     (\<exists>t k'. c = Get t k') \<or>
     (\<exists>t k' v. c = Set t k' v \<and> (k' \<noteq> k \<or> k' = NaN)) \<or>
     (\<exists>t k' v. c = Update t k' v \<and> (k' \<noteq> k \<or> k' = NaN)) \<or>
     (\<exists>f. c = SetUpdateValueFunc f) \<or> c = Stop \<or>
     (\<exists>t f. c = ExecuteFunc t f \<and> (\<forall>m. \<not> present m k \<longrightarrow> \<not> present (snd (f m)) k))"

section \<open>The values of the examples and of the test\<close>

text \<open>
  The dynamic values that the examples and the test of the repository store: \<^verbatim>\<open>nil\<close>,
  an \<^verbatim>\<open>int\<close> and a \<^verbatim>\<open>string\<close>. Go's \<^verbatim>\<open>int\<close> is a machine integer whose addition
  wraps around, 64 bits wide on a 64-bit platform (and 32 on a 32-bit one, where what
  is said below of \<open>2 ^ 63\<close> holds of \<open>2 ^ 31\<close>). The zero value of
  \<^verbatim>\<open>interface{}\<close> is \<^verbatim>\<open>nil\<close>.
\<close>

datatype val = NilV | IntV "64 word" | StringV string

instantiation val :: zero
begin

definition zero_val :: "val" where
  "zero_val = NilV"

instance ..

end

text \<open>
  The update function of the test and of the README,
  \<^verbatim>\<open>oldValue.(int) + newValue.(int)\<close>. A type assertion on a value that is not an
  \<^verbatim>\<open>int\<close> panics, the left one first; \<open>conversion_panic\<close> is the line that the
  runtime then prints.
\<close>

fun type_name :: "val \<Rightarrow> string" where
  "type_name NilV = ''nil''"
| "type_name (IntV i) = ''int''"
| "type_name (StringV x) = ''string''"

definition conversion_panic :: "val \<Rightarrow> string" where
  "conversion_panic v =
     ''panic: interface conversion: interface {} is '' @ type_name v @ '', not int'' @ [CHR 0x0A]"

fun add_ints :: "val \<Rightarrow> val \<Rightarrow> val result" where
  "add_ints (IntV a) (IntV b) = Returned (IntV (a + b))"
| "add_ints (IntV a) newValue = Panics (conversion_panic newValue)"
| "add_ints oldValue newValue = Panics (conversion_panic oldValue)"

section \<open>Concurrent counting\<close>






















section \<open>Example systems\<close>



text \<open>A container that holds an age, with addition installed, and one update to make.\<close>

definition birthday :: "(string, val) sys" where
  "birthday =
     start (NewParallelMap\<lparr>Map := \<lparr>entries = [''age'' \<mapsto> IntV 26], nan_entries = []\<rparr>,
                           UpdateValueFunc := add_ints\<rparr>)
       [[Update 0 (Key ''age'') (IntV 1)]]"

text \<open>The same where the age is held as a string.\<close>

definition spelled :: "(string, val) sys" where
  "spelled =
     start (NewParallelMap\<lparr>Map := \<lparr>entries = [''age'' \<mapsto> StringV ''26''], nan_entries = []\<rparr>,
                           UpdateValueFunc := add_ints\<rparr>)
       [[Update 0 (Key ''age'') (IntV 1)]]"

text \<open>The same container with an update function that blocks for ever.\<close>

definition blocks :: "val \<Rightarrow> val \<Rightarrow> val result" where
  "blocks oldValue newValue = Hangs"

definition stalled :: "(string, val) sys" where
  "stalled =
     start (NewParallelMap\<lparr>Map := \<lparr>entries = [''age'' \<mapsto> IntV 26], nan_entries = []\<rparr>,
                           UpdateValueFunc := blocks\<rparr>)
       [[Update 0 (Key ''age'') (IntV 1)]]"

text \<open>A fresh container with addition installed, and one update to make.\<close>

definition first_update :: "(string, val) sys" where
  "first_update =
     start (NewParallelMap\<lparr>UpdateValueFunc := add_ints\<rparr>) [[Update 0 (Key ''age'') (IntV 1)]]"

text \<open>A container that holds an age, with the update function from construction.\<close>

definition overwrite :: "(string, val) sys" where
  "overwrite =
     start (NewParallelMap\<lparr>Map := \<lparr>entries = [''age'' \<mapsto> IntV 26], nan_entries = []\<rparr>\<rparr>)
       [[Update 0 (Key ''age'') (IntV 1)]]"

text \<open>One goroutine writes and updates, the other installs addition.\<close>

definition race :: "(string, val) sys" where
  "race =
     start NewParallelMap
       [[Set 0 (Key ''k'') (IntV 1), Update 0 (Key ''k'') (IntV 5)], [SetUpdateValueFunc add_ints]]"

text \<open>The actor holds an update of goroutine 0 that it has not run yet.\<close>

definition accepted :: "(string, val) sys" where
  "accepted =
     \<lparr>pm = \<lparr>Map = \<lparr>entries = [''k'' \<mapsto> IntV 1], nan_entries = []\<rparr>,
            UpdateValueFunc = (\<lambda>oldValue newValue. Returned newValue), wg = 1\<rparr>,
      threads = [\<lparr>prog = [Recv (Chan 0 0) (\<lambda>_. Returns [])], results = []\<rparr>,
                 \<lparr>prog = [SetUpdateValueFunc add_ints], results = []\<rparr>],
      backend = Some (Update_work 0 (Key ''k'') (IntV 5)), stderr = [], exited = None\<rparr>"

text \<open>A custom function that fails, and a goroutine that submits it.\<close>

definition failing :: "(string, val) custom" where
  "failing m = (Some ''boom'', m)"

definition doomed :: "(string, val) sys" where
  "doomed = start NewParallelMap [[ExecuteFunc 0 failing]]"

text \<open>A goroutine that writes and updates keys, and then reads one it never wrote.\<close>

definition writer :: "(string, val) caller list list" where
  "writer =
     [[Set 0 (Key ''a'') (IntV 1), Update 0 (Key ''b'') (IntV 2), Set 0 NaN (IntV 3),
       Get 0 (Key ''c'')]]"



section \<open>Single calls\<close>

text \<open>
  The plain form of \<open>exec\<close> on an access, and what one call does to the system when
  only the calling goroutine and the backend move.
\<close>

lemma exec_Access: "exec (Access g) s = exec (snd (g s)) (fst (g s))"
  by (cases "g s") simp

lemmas sem_defs = step_def thread_step_def handoff_def backend_step_def deliver_def
  wg_Add_def wg_Done_def alone_def Let_def

lemmas method_defs = Get_def Get_work_def Set_def Set_work_def Update_def Update_work_def
  SetUpdateValueFunc_def Stop_def ExecuteFunc_def ExecuteFunc_work_def

lemma run_append: "run (as @ bs) s = (case run as s of None \<Rightarrow> None | Some s' \<Rightarrow> run bs s')"
  by (induction as arbitrary: s) (auto split: option.splits)

lemma Set_alone:
  assumes "t < length (threads s)" "prog (threads s ! t) = Set t k v # rest"
    "backend s = None" "exited s = None"
  shows "run (alone t 4) s =
    Some (s\<lparr>pm := (pm s)\<lparr>Map := map_assign (Map (pm s)) k v\<rparr>,
            threads := (threads s)[t := (threads s ! t)\<lparr>prog := rest, results := results (threads s ! t) @ [[]]\<rparr>]\<rparr>)"
  using assms
  by (simp add: eval_nat_numeral sem_defs Set_def Set_work_def)

lemma Get_alone:
  assumes "t < length (threads s)" "prog (threads s ! t) = Get t k # rest"
    "backend s = None" "exited s = None"
  shows "run (alone t 5) s =
    Some (s\<lparr>threads := (threads s)[t := (threads s ! t)\<lparr>prog := rest,
       results := results (threads s ! t) @ [[MValue (fst (map_index (Map (pm s)) k)), MBool (snd (map_index (Map (pm s)) k))]]\<rparr>]\<rparr>)"
  using assms
  by (simp add: eval_nat_numeral sem_defs Get_def Get_work_def split: prod.splits)

lemma Update_work_returns:
  assumes "backend s = Some (Update_work t k v)" and "exited s = None"
    and "(case map_index (Map (pm s)) k of (oldValue, ok) \<Rightarrow>
            if ok then UpdateValueFunc (pm s) oldValue v else Returned v) = Returned r"
  shows "step Backend s =
    Some (s\<lparr>pm := (pm s)\<lparr>Map := map_assign (Map (pm s)) k r\<rparr>,
            backend := Some (Send (Chan t 0) (MBool True) (wg_Done (Return None)))\<rparr>)"
  using assms
  by (cases "map_index (Map (pm s)) k")
     (simp add: step_def backend_step_def Update_work_def split: if_splits)

lemma Update_work_panics:
  assumes "backend s = Some (Update_work t k v)" and "exited s = None"
    and "map_index (Map (pm s)) k = (oldValue, True)"
    and "UpdateValueFunc (pm s) oldValue v = Panics report"
  shows "step Backend s = Some (s\<lparr>backend := Some (Panic report)\<rparr>)"
  using assms
  by (simp add: step_def backend_step_def Update_work_def)

lemma Update_work_hangs:
  assumes "backend s = Some (Update_work t k v)" and "exited s = None"
    and "map_index (Map (pm s)) k = (oldValue, True)"
    and "UpdateValueFunc (pm s) oldValue v = Hangs"
  shows "step Backend s = Some (s\<lparr>backend := Some Hang\<rparr>)"
  using assms
  by (simp add: step_def backend_step_def Update_work_def)

lemma Update_alone:
  assumes "t < length (threads s)" "prog (threads s ! t) = Update t k v # rest"
    "backend s = None" "exited s = None"
    and "(case map_index (Map (pm s)) k of (oldValue, ok) \<Rightarrow>
            if ok then UpdateValueFunc (pm s) oldValue v else Returned v) = Returned r"
  shows "run (alone t 4) s =
    Some (s\<lparr>pm := (pm s)\<lparr>Map := map_assign (Map (pm s)) k r\<rparr>,
            threads := (threads s)[t := (threads s ! t)\<lparr>prog := rest, results := results (threads s ! t) @ [[]]\<rparr>]\<rparr>)"
  using assms
  by (cases "map_index (Map (pm s)) k")
     (simp add: eval_nat_numeral sem_defs Update_def Update_work_def split: if_splits)

lemma Update_panics:
  assumes "t < length (threads s)" "prog (threads s ! t) = Update t k v # rest"
    "backend s = None" "exited s = None"
    and "map_index (Map (pm s)) k = (oldValue, True)"
    and "UpdateValueFunc (pm s) oldValue v = Panics report"
  shows "run [Thread t, Handoff t, Backend, Backend] s =
    Some (s\<lparr>pm := (pm s)\<lparr>wg := wg (pm s) + 1\<rparr>,
            threads := (threads s)[t := (threads s ! t)\<lparr>prog := Recv (Chan t 0) (\<lambda>_. Returns []) # rest\<rparr>],
            backend := Some (Panic report),
            stderr := stderr s @ report, exited := Some 2\<rparr>)"
  using assms
  by (simp add: sem_defs Update_def Update_work_def)

lemma Update_hangs:
  assumes "t < length (threads s)" "prog (threads s ! t) = Update t k v # rest"
    "backend s = None" "exited s = None"
    and "map_index (Map (pm s)) k = (oldValue, True)"
    and "UpdateValueFunc (pm s) oldValue v = Hangs"
  shows "run [Thread t, Handoff t, Backend] s =
    Some (s\<lparr>pm := (pm s)\<lparr>wg := wg (pm s) + 1\<rparr>,
            threads := (threads s)[t := (threads s ! t)\<lparr>prog := Recv (Chan t 0) (\<lambda>_. Returns []) # rest\<rparr>],
            backend := Some Hang\<rparr>)"
  using assms
  by (simp add: sem_defs Update_def Update_work_def)

text \<open>
  Once the backend is inside a call that never returns, it stays there, and a goroutine
  that is blocked in a receive stays blocked.
\<close>

lemma hang_step:
  assumes "backend s = Some Hang" and "t < length (threads s)"
    and "prog (threads s ! t) = Recv c f # rest" and "step a s = Some s'"
  shows "backend s' = Some Hang \<and> t < length (threads s') \<and>
         prog (threads s' ! t) = Recv c f # rest \<and> results (threads s' ! t) = results (threads s ! t) \<and>
         exited s' = None \<and> stderr s' = stderr s"
proof (cases a)
  case (Thread u)
  show ?thesis
  proof (cases "u = t")
    case True
    with assms Thread show ?thesis
      by (simp add: step_def thread_step_def Let_def split: if_splits)
  next
    case False
    with assms Thread show ?thesis
      by (auto simp: step_def thread_step_def Let_def split: if_splits list.splits caller.splits)
  qed
next
  case (Handoff u)
  with assms show ?thesis
    by (simp add: step_def handoff_def split: if_splits)
next
  case Backend
  with assms show ?thesis
    by (simp add: step_def backend_step_def split: if_splits)
qed

lemma hang_run:
  assumes "backend s = Some Hang" and "t < length (threads s)"
    and "prog (threads s ! t) = Recv c f # rest" and "exited s = None"
    and "run as s = Some s'"
  shows "backend s' = Some Hang \<and> t < length (threads s') \<and>
         prog (threads s' ! t) = Recv c f # rest \<and> results (threads s' ! t) = results (threads s ! t) \<and>
         exited s' = None \<and> stderr s' = stderr s"
  using assms
proof (induction as arbitrary: s)
  case Nil
  then show ?case by simp
next
  case (Cons a as)
  from Cons.prems(5) obtain s1 where a: "step a s = Some s1" and r: "run as s1 = Some s'"
    by (auto split: option.splits)
  from hang_step [OF Cons.prems(1-3) a]
  have h: "backend s1 = Some Hang" "t < length (threads s1)" "prog (threads s1 ! t) = Recv c f # rest"
    "exited s1 = None"
    and e: "results (threads s1 ! t) = results (threads s ! t)" "stderr s1 = stderr s"
    by simp_all
  from Cons.IH [OF h r] e show ?case by simp
qed

lemma ExecuteFunc_prefix:
  assumes "t < length (threads s)" "prog (threads s ! t) = ExecuteFunc t f # rest"
    "backend s = None" "exited s = None"
  shows "run [Thread t, Handoff t, Backend, Backend] s =
    Some (s\<lparr>pm := (pm s)\<lparr>Map := snd (f (Map (pm s))), wg := wg (pm s) + 1\<rparr>,
            threads := (threads s)[t := (threads s ! t)\<lparr>prog := Returns [] # rest\<rparr>],
            backend := Some (wg_Done (Return (fst (f (Map (pm s))))))\<rparr>)"
  using assms
  by (simp add: sem_defs ExecuteFunc_def ExecuteFunc_work_def split: prod.splits)




lemma step_after_exit: "exited s \<noteq> None \<Longrightarrow> step a s = None"
  by (simp add: step_def)

lemma backend_fatal:
  assumes "backend s = Some (Return (Some e))" and "exited s = None"
  shows "step Backend s = Some (s\<lparr>stderr := stderr s @ e @ [CHR 0x0A], exited := Some 1\<rparr>)"
  using assms by (simp add: step_def backend_step_def)

lemma backend_panic:
  assumes "backend s = Some (Panic report)" and "exited s = None"
  shows "step Backend s = Some (s\<lparr>stderr := stderr s @ report, exited := Some 2\<rparr>)"
  using assms by (simp add: step_def backend_step_def)

lemma SetUpdateValueFunc_steps:
  assumes "t < length (threads s)" and "prog (threads s ! t) = SetUpdateValueFunc g # rest"
    and "exited s = None"
  shows "run [Thread t, Thread t] s =
    Some (s\<lparr>pm := (pm s)\<lparr>UpdateValueFunc := g\<rparr>,
            threads := (threads s)[t := (threads s ! t)\<lparr>prog := rest, results := results (threads s ! t) @ [[]]\<rparr>]\<rparr>)"
  using assms by (simp add: sem_defs SetUpdateValueFunc_def)

section \<open>Invariants of the code in a system\<close>

text \<open>
  Every step of a system keeps \<open>sys_keeps\<close>, relates the container before and after
  by \<open>R\<close>, and ends the process only in a way that \<open>E\<close> allows. Each method keeps
  every invariant and relation that its own accesses keep.
\<close>

inductive_cases keeps_ReturnE: "work_keeps I R E (Return e)"

inductive_cases keeps_PanicE: "work_keeps I R E (Panic r)"

inductive_cases keeps_SendE: "work_keeps I R E (Send c m w)"

inductive_cases keeps_AccessE: "work_keeps I R E (Access g)"

inductive_cases keeps_LocalE: "caller_keeps I R E (Local g p)"

inductive_cases keeps_SendOpE: "caller_keeps I R E (SendOp w p)"

inductive_cases keeps_RecvE: "caller_keeps I R E (Recv c k)"

inductive_cases keeps_WgWaitE: "caller_keeps I R E (WgWait p)"

lemma threads_keep_update:
  assumes "\<forall>th \<in> set ths. \<forall>p \<in> set (prog th). caller_keeps I R E p"
    and "\<forall>p \<in> set (prog th'). caller_keeps I R E p"
  shows "\<forall>th \<in> set (ths[t := th']). \<forall>p \<in> set (prog th). caller_keeps I R E p"
  using assms set_update_subset_insert [of ths t th'] by blast

lemma thread_step_keeps:
  assumes "sys_keeps I R E s" and "thread_step t s = Some s'"
  shows "sys_keeps I R E s' \<and> ((\<forall>x. R x x) \<longrightarrow> R (pm s) (pm s')) \<and> exited s' = exited s \<and> stderr s' = stderr s"
proof -
  from assms(2) have t: "t < length (threads s)"
    by (simp add: thread_step_def Let_def split: if_splits)
  let ?th = "threads s ! t"
  have th: "\<forall>p \<in> set (prog ?th). caller_keeps I R E p"
    using assms(1) nth_mem [OF t] by (auto simp: sys_keeps_def)
  have all: "\<forall>th \<in> set (threads s). \<forall>p \<in> set (prog th). caller_keeps I R E p"
    and bk: "\<forall>w. backend s = Some w \<longrightarrow> work_keeps I R E w"
    and inv: "I (pm s)"
    using assms(1) by (simp_all add: sys_keeps_def)
  show ?thesis
  proof (cases "prog ?th")
    case Nil
    with assms(2) t show ?thesis by (simp add: thread_step_def Let_def)
  next
    case (Cons c rest)
    have c: "caller_keeps I R E c" and rest: "\<forall>p \<in> set rest. caller_keeps I R E p"
      using th Cons by simp_all
    show ?thesis
    proof (cases c)
      case (Local g p)
      from c Local have g: "\<forall>x. I x \<longrightarrow> I (g x) \<and> R x (g x)" and p: "caller_keeps I R E p"
        by (auto elim: keeps_LocalE)
      from g inv have gi: "I (g (pm s))" and gr: "R (pm s) (g (pm s))" by simp_all
      from assms(2) t Cons Local
      have s': "s' = s\<lparr>pm := g (pm s), threads := (threads s)[t := ?th\<lparr>prog := p # rest\<rparr>]\<rparr>"
        by (simp add: thread_step_def Let_def)
      have "\<forall>th \<in> set ((threads s)[t := ?th\<lparr>prog := p # rest\<rparr>]). \<forall>q \<in> set (prog th). caller_keeps I R E q"
        using all p rest by (intro threads_keep_update) simp_all
      with s' bk gi gr show ?thesis by (simp add: sys_keeps_def)
    next
      case (SendOp w p)
      with assms(2) t Cons show ?thesis by (simp add: thread_step_def Let_def)
    next
      case (Recv ch k)
      with assms(2) t Cons show ?thesis by (simp add: thread_step_def Let_def)
    next
      case (WgWait p)
      from c WgWait have p: "caller_keeps I R E p"
        by (auto elim: keeps_WgWaitE)
      from assms(2) t Cons WgWait
      have s': "s' = s\<lparr>threads := (threads s)[t := ?th\<lparr>prog := p # rest\<rparr>]\<rparr>"
        by (simp add: thread_step_def Let_def split: if_splits)
      have "\<forall>th \<in> set ((threads s)[t := ?th\<lparr>prog := p # rest\<rparr>]). \<forall>q \<in> set (prog th). caller_keeps I R E q"
        using all p rest by (intro threads_keep_update) simp_all
      with s' bk inv show ?thesis by (simp add: sys_keeps_def)
    next
      case (Returns r)
      from assms(2) t Cons Returns
      have s': "s' = s\<lparr>threads := (threads s)[t := ?th\<lparr>prog := rest, results := results ?th @ [r]\<rparr>]\<rparr>"
        by (simp add: thread_step_def Let_def)
      have "\<forall>th \<in> set ((threads s)[t := ?th\<lparr>prog := rest, results := results ?th @ [r]\<rparr>]). \<forall>q \<in> set (prog th). caller_keeps I R E q"
        using all rest by (intro threads_keep_update) simp_all
      with s' bk inv show ?thesis by (simp add: sys_keeps_def)
    qed
  qed
qed

lemma handoff_keeps:
  assumes "sys_keeps I R E s" and "handoff t s = Some s'"
  shows "sys_keeps I R E s' \<and> pm s' = pm s \<and> exited s' = exited s \<and> stderr s' = stderr s"
proof -
  from assms(2) have t: "t < length (threads s)"
    by (simp add: handoff_def split: if_splits)
  let ?th = "threads s ! t"
  have th: "\<forall>p \<in> set (prog ?th). caller_keeps I R E p"
    using assms(1) nth_mem [OF t] by (auto simp: sys_keeps_def)
  have all: "\<forall>th \<in> set (threads s). \<forall>p \<in> set (prog th). caller_keeps I R E p"
    and inv: "I (pm s)"
    using assms(1) by (simp_all add: sys_keeps_def)
  from assms(2) t obtain w p rest where pr: "prog ?th = SendOp w p # rest"
    and s': "s' = s\<lparr>backend := Some w, threads := (threads s)[t := ?th\<lparr>prog := p # rest\<rparr>]\<rparr>"
    by (auto simp: handoff_def Let_def split: if_splits list.splits caller.splits)
  from th pr have w: "work_keeps I R E w" and p: "caller_keeps I R E p"
    and rest: "\<forall>q \<in> set rest. caller_keeps I R E q"
    by (auto elim: keeps_SendOpE)
  have "\<forall>th \<in> set ((threads s)[t := ?th\<lparr>prog := p # rest\<rparr>]). \<forall>q \<in> set (prog th). caller_keeps I R E q"
    using all p rest by (intro threads_keep_update) simp_all
  with s' w inv show ?thesis by (simp add: sys_keeps_def)
qed

lemma deliver_keeps:
  assumes "\<forall>th \<in> set ths. \<forall>p \<in> set (prog th). caller_keeps I R E p"
    and "deliver c m ths = Some ths'"
  shows "\<forall>th \<in> set ths'. \<forall>p \<in> set (prog th). caller_keeps I R E p"
proof -
  obtain t i where c: "c = Chan t i" by (cases c)
  from assms(2) c have t: "t < length ths"
    by (simp add: deliver_def split: if_splits)
  from assms(2) c t obtain k rest where pr: "prog (ths ! t) = Recv c k # rest"
    and ths': "ths' = ths[t := (ths ! t)\<lparr>prog := k m # rest\<rparr>]"
    by (auto simp: deliver_def split: if_splits list.splits caller.splits)
  have "\<forall>p \<in> set (prog (ths ! t)). caller_keeps I R E p"
    using assms(1) nth_mem [OF t] by blast
  with pr have "caller_keeps I R E (k m)" and "\<forall>q \<in> set rest. caller_keeps I R E q"
    by (auto elim: keeps_RecvE)
  then show ?thesis
    unfolding ths' using assms(1) by (intro threads_keep_update) simp_all
qed

text \<open>
  How a step leaves the process: running, with nothing printed; ended by the backend's
  check, with the error printed; or ended by a panic, with its report printed.
\<close>

lemma backend_step_keeps:
  assumes "sys_keeps I R E s" and "backend_step s = Some s'"
  shows "sys_keeps I R E s' \<and> ((\<forall>x. R x x) \<longrightarrow> R (pm s) (pm s')) \<and>
         (exited s' = exited s \<and> stderr s' = stderr s \<or>
          (\<exists>e. E (Result (Some e)) \<and> exited s' = Some 1 \<and> stderr s' = stderr s @ e @ [CHR 0x0A]) \<or>
          (\<exists>r. E (Crash r) \<and> exited s' = Some 2 \<and> stderr s' = stderr s @ r))"
proof -
  have all: "\<forall>th \<in> set (threads s). \<forall>p \<in> set (prog th). caller_keeps I R E p"
    and inv: "I (pm s)"
    using assms(1) by (simp_all add: sys_keeps_def)
  from assms(2) obtain w where w: "backend s = Some w"
    by (auto simp: backend_step_def split: option.splits)
  with assms(1) have wk: "work_keeps I R E w" by (simp add: sys_keeps_def)
  show ?thesis
  proof (cases w)
    case (Access g)
    obtain x w' where g: "g (pm s) = (x, w')" by (cases "g (pm s)")
    from wk Access inv
    have "I (fst (g (pm s)))" "R (pm s) (fst (g (pm s)))" "work_keeps I R E (snd (g (pm s)))"
      by (auto elim: keeps_AccessE)
    with g have "I x" "R (pm s) x" "work_keeps I R E w'" by simp_all
    moreover from assms(2) w Access g have "s' = s\<lparr>pm := x, backend := Some w'\<rparr>"
      by (simp add: backend_step_def)
    ultimately show ?thesis using all by (simp add: sys_keeps_def)
  next
    case (Send c m w')
    from wk Send have w': "work_keeps I R E w'" by (auto elim: keeps_SendE)
    from assms(2) w Send obtain ths where d: "deliver c m (threads s) = Some ths"
      and s': "s' = s\<lparr>threads := ths, backend := Some w'\<rparr>"
      by (auto simp: backend_step_def split: option.splits)
    from deliver_keeps [OF all d] s' w' inv show ?thesis by (simp add: sys_keeps_def)
  next
    case (Return e)
    from wk Return have e: "E (Result e)" by (auto elim: keeps_ReturnE)
    show ?thesis
    proof (cases e)
      case None
      with assms(2) w Return have "s' = s\<lparr>backend := None\<rparr>"
        by (simp add: backend_step_def)
      with all inv show ?thesis by (simp add: sys_keeps_def)
    next
      case (Some msg)
      with assms(2) w Return have "s' = s\<lparr>stderr := stderr s @ msg @ [CHR 0x0A], exited := Some 1\<rparr>"
        by (simp add: backend_step_def)
      with assms(1) e Some show ?thesis by (auto simp add: sys_keeps_def)
    qed
  next
    case (Panic r)
    from wk Panic have e: "E (Crash r)" by (auto elim: keeps_PanicE)
    from assms(2) w Panic have "s' = s\<lparr>stderr := stderr s @ r, exited := Some 2\<rparr>"
      by (simp add: backend_step_def)
    with assms(1) e show ?thesis by (auto simp add: sys_keeps_def)
  next
    case Hang
    with assms(2) w show ?thesis by (simp add: backend_step_def)
  qed
qed

lemma step_keeps:
  assumes "sys_keeps I R E s" and "step a s = Some s'"
  shows "sys_keeps I R E s' \<and> ((\<forall>x. R x x) \<longrightarrow> R (pm s) (pm s')) \<and>
         (exited s' = None \<and> stderr s' = stderr s \<or>
          (\<exists>e. E (Result (Some e)) \<and> exited s' = Some 1 \<and> stderr s' = stderr s @ e @ [CHR 0x0A]) \<or>
          (\<exists>r. E (Crash r) \<and> exited s' = Some 2 \<and> stderr s' = stderr s @ r))"
proof -
  from assms(2) have ex: "exited s = None" by (simp add: step_def split: if_splits)
  show ?thesis
  proof (cases a)
    case (Thread t)
    with assms(2) ex have "thread_step t s = Some s'" by (simp add: step_def)
    from thread_step_keeps [OF assms(1) this] ex show ?thesis by simp
  next
    case (Handoff t)
    with assms(2) ex have "handoff t s = Some s'" by (simp add: step_def)
    from handoff_keeps [OF assms(1) this] ex show ?thesis by simp
  next
    case Backend
    with assms(2) ex have "backend_step s = Some s'" by (simp add: step_def)
    from backend_step_keeps [OF assms(1) this] ex show ?thesis by simp
  qed
qed

lemma run_keeps:
  assumes "sys_keeps I R E s" and "run as s = Some s'"
    and "\<forall>x. R x x" and "\<forall>x y z. R x y \<longrightarrow> R y z \<longrightarrow> R x z"
  shows "sys_keeps I R E s' \<and> R (pm s) (pm s')"
  using assms(1,2)
proof (induction as arbitrary: s)
  case Nil
  with assms(3) show ?case by simp
next
  case (Cons a as)
  from Cons.prems(2) obtain s1 where a: "step a s = Some s1" and r: "run as s1 = Some s'"
    by (auto split: option.splits)
  from step_keeps [OF Cons.prems(1) a] assms(3) have "sys_keeps I R E s1" "R (pm s) (pm s1)"
    by simp_all
  moreover from Cons.IH [OF \<open>sys_keeps I R E s1\<close> r] have "sys_keeps I R E s'" "R (pm s1) (pm s')"
    by simp_all
  ultimately show ?case using assms(4) by blast
qed



lemma wg_Done_keeps:
  assumes "\<And>s. I s \<Longrightarrow> I (s\<lparr>wg := wg s - 1\<rparr>) \<and> R s (s\<lparr>wg := wg s - 1\<rparr>)"
    and "work_keeps I R E w"
  shows "work_keeps I R E (wg_Done w)"
  unfolding wg_Done_def by (rule keeps_Access) (simp add: assms)

lemma wg_Add_keeps:
  assumes "\<And>s. I s \<Longrightarrow> I (s\<lparr>wg := wg s + 1\<rparr>) \<and> R s (s\<lparr>wg := wg s + 1\<rparr>)"
    and "caller_keeps I R E p"
  shows "caller_keeps I R E (wg_Add p)"
  unfolding wg_Add_def by (rule keeps_Local) (simp_all add: assms)

lemma reply_keeps:
  assumes "\<And>s. I s \<Longrightarrow> I (s\<lparr>wg := wg s - 1\<rparr>) \<and> R s (s\<lparr>wg := wg s - 1\<rparr>)" and "E (Result e)"
  shows "work_keeps I R E (Send c m (wg_Done (Return e)))"
  by (intro keeps_Send wg_Done_keeps keeps_Return assms)

lemma Get_keeps:
  assumes "\<And>s. I s \<Longrightarrow> R s s"
    and "\<And>s n. I s \<Longrightarrow> I (s\<lparr>wg := n\<rparr>) \<and> R s (s\<lparr>wg := n\<rparr>)" and "E (Result None)"
  shows "caller_keeps I R E (Get t k)"
proof -
  have w: "work_keeps I R E (Send c m (Send c' m' (wg_Done (Return None))))" for c m c' m'
    by (intro keeps_Send reply_keeps assms) assumption
  have "work_keeps I R E (Get_work t k)"
    unfolding Get_work_def
    by (rule keeps_Access) (simp add: split_beta assms w)
  then show ?thesis
    unfolding Get_def
    apply -
    apply (rule wg_Add_keeps)
     apply (rule assms, assumption)
    apply (rule keeps_SendOp)
     apply assumption
    apply (intro allI keeps_Recv keeps_Returns)
    done
qed

lemma Set_keeps:
  assumes "\<And>s n. I s \<Longrightarrow> I (s\<lparr>wg := n\<rparr>) \<and> R s (s\<lparr>wg := n\<rparr>)"
    and "\<And>s. I s \<Longrightarrow> I (s\<lparr>Map := map_assign (Map s) k v\<rparr>) \<and> R s (s\<lparr>Map := map_assign (Map s) k v\<rparr>)"
    and "E (Result None)"
  shows "caller_keeps I R E (Set t k v)"
proof -
  have w: "work_keeps I R E (Send c m (wg_Done (Return None)))" for c m
    by (intro reply_keeps assms) assumption
  have "work_keeps I R E (Set_work t k v)"
    unfolding Set_work_def
    by (rule keeps_Access) (simp add: assms w)
  then show ?thesis
    unfolding Set_def
    apply -
    apply (rule wg_Add_keeps)
     apply (rule assms, assumption)
    apply (rule keeps_SendOp)
     apply assumption
    apply (intro allI keeps_Recv keeps_Returns)
    done
qed

lemma Update_keeps:
  assumes "\<And>s. I s \<Longrightarrow> R s s"
    and "\<And>s n. I s \<Longrightarrow> I (s\<lparr>wg := n\<rparr>) \<and> R s (s\<lparr>wg := n\<rparr>)"
    and "\<And>s x. I s \<Longrightarrow> I (s\<lparr>Map := map_assign (Map s) k x\<rparr>) \<and> R s (s\<lparr>Map := map_assign (Map s) k x\<rparr>)"
    and "E (Result None)"
    and "\<And>s a r. I s \<Longrightarrow> UpdateValueFunc s a v = Panics r \<Longrightarrow> E (Crash r)"
    and "\<And>s a. I s \<Longrightarrow> UpdateValueFunc s a v = Hangs \<Longrightarrow> E Never"
  shows "caller_keeps I R E (Update t k v)"
proof -
  have w: "work_keeps I R E (Send (Chan t 0) (MBool True) (wg_Done (Return None)))"
    by (intro reply_keeps assms) assumption
  have "work_keeps I R E (Update_work t k v)"
    unfolding Update_work_def
  proof (rule keeps_Access, intro allI impI)
    fix s :: "('a, 'b) pmap"
    assume i: "I s"
    obtain oldValue ok where m: "map_index (Map s) k = (oldValue, ok)"
      by (cases "map_index (Map s) k")
    show "I (fst (case map_index (Map s) k of (oldValue, ok) \<Rightarrow>
              if ok then (case UpdateValueFunc s oldValue v of
                  Returned r \<Rightarrow> (s\<lparr>Map := map_assign (Map s) k r\<rparr>,
                     Send (Chan t 0) (MBool True) (wg_Done (Return None)))
                | Panics report \<Rightarrow> (s, Panic report)
                | Hangs \<Rightarrow> (s, Hang))
              else (s\<lparr>Map := map_assign (Map s) k v\<rparr>,
                    Send (Chan t 0) (MBool True) (wg_Done (Return None))))) \<and>
          R s (fst (case map_index (Map s) k of (oldValue, ok) \<Rightarrow>
              if ok then (case UpdateValueFunc s oldValue v of
                  Returned r \<Rightarrow> (s\<lparr>Map := map_assign (Map s) k r\<rparr>,
                     Send (Chan t 0) (MBool True) (wg_Done (Return None)))
                | Panics report \<Rightarrow> (s, Panic report)
                | Hangs \<Rightarrow> (s, Hang))
              else (s\<lparr>Map := map_assign (Map s) k v\<rparr>,
                    Send (Chan t 0) (MBool True) (wg_Done (Return None))))) \<and>
          work_keeps I R E (snd (case map_index (Map s) k of (oldValue, ok) \<Rightarrow>
              if ok then (case UpdateValueFunc s oldValue v of
                  Returned r \<Rightarrow> (s\<lparr>Map := map_assign (Map s) k r\<rparr>,
                     Send (Chan t 0) (MBool True) (wg_Done (Return None)))
                | Panics report \<Rightarrow> (s, Panic report)
                | Hangs \<Rightarrow> (s, Hang))
              else (s\<lparr>Map := map_assign (Map s) k v\<rparr>,
                    Send (Chan t 0) (MBool True) (wg_Done (Return None)))))"
    proof (cases ok)
      case False
      with m w assms(3) [OF i] show ?thesis by simp
    next
      case True
      show ?thesis
      proof (cases "UpdateValueFunc s oldValue v")
        case (Returned r)
        with m True w assms(3) [OF i] show ?thesis by simp
      next
        case (Panics r)
        from assms(5) [OF i Panics] have "work_keeps I R E (Panic r)"
          by (rule keeps_Panic)
        with m True Panics i assms(1) [OF i] show ?thesis by simp
      next
        case Hangs
        from assms(6) [OF i Hangs] have "work_keeps I R E Hang"
          by (rule keeps_Hang)
        with m True Hangs i assms(1) [OF i] show ?thesis by simp
      qed
    qed
  qed
  then show ?thesis
    unfolding Update_def
    apply -
    apply (rule wg_Add_keeps)
     apply (rule assms, assumption)
    apply (rule keeps_SendOp)
     apply assumption
    apply (intro allI keeps_Recv keeps_Returns)
    done
qed

lemma ExecuteFunc_keeps:
  assumes "\<And>s n. I s \<Longrightarrow> I (s\<lparr>wg := n\<rparr>) \<and> R s (s\<lparr>wg := n\<rparr>)"
    and "\<And>s. I s \<Longrightarrow> I (s\<lparr>Map := snd (f (Map s))\<rparr>) \<and> R s (s\<lparr>Map := snd (f (Map s))\<rparr>)"
    and "\<And>e. E (Result e)"
  shows "caller_keeps I R E (ExecuteFunc t f)"
proof -
  have w: "work_keeps I R E (Send c m (wg_Done (Return e)))" for c m e
    by (intro reply_keeps assms) assumption
  have "work_keeps I R E (ExecuteFunc_work t f)"
    unfolding ExecuteFunc_work_def
    by (rule keeps_Access) (simp add: split_beta assms w)
  then show ?thesis
    unfolding ExecuteFunc_def
    apply -
    apply (rule wg_Add_keeps)
     apply (rule assms, assumption)
    apply (rule keeps_SendOp)
     apply assumption
    apply (intro allI keeps_Recv keeps_Returns)
    done
qed

lemma SetUpdateValueFunc_keeps:
  assumes "\<And>s. I s \<Longrightarrow> I (s\<lparr>UpdateValueFunc := f\<rparr>) \<and> R s (s\<lparr>UpdateValueFunc := f\<rparr>)"
  shows "caller_keeps I R E (SetUpdateValueFunc f)"
  unfolding SetUpdateValueFunc_def
  by (intro keeps_Local keeps_Returns allI impI assms)

lemma Stop_keeps: "caller_keeps I R E Stop"
  unfolding Stop_def by (intro keeps_WgWait keeps_Returns)

lemma start_keeps:
  "I m \<Longrightarrow> \<forall>p \<in> set ps. \<forall>c \<in> set p. caller_keeps I R E c \<Longrightarrow> sys_keeps I R E (start m ps)"
  by (auto simp: sys_keeps_def start_def)

lemma present_assign:
  "present (map_assign m k' x) k \<longleftrightarrow> present m k \<or> (k = k' \<and> k' \<noteq> NaN)"
  by (cases k; cases k') auto

lemma nan_entries_assign:
  "\<exists>ys. nan_entries (map_assign m k x) = nan_entries m @ ys"
  by (cases k) auto

lemma builtin_keeps_entries:
  fixes c :: "('k, 'v::zero) caller"
  assumes "builtin c"
  shows "caller_keeps (\<lambda>s. True)
           (\<lambda>s s'. (\<forall>k. present (Map s) k \<longrightarrow> present (Map s') k) \<and>
                    (\<exists>ys. nan_entries (Map s') = nan_entries (Map s) @ ys))
           (\<lambda>e. e = Result None \<or> (\<exists>r. e = Crash r) \<or> e = Never) c"
proof -
  let ?I = "\<lambda>s::('k, 'v) pmap. True"
  let ?R = "\<lambda>(s::('k, 'v) pmap) (s'::('k, 'v) pmap).
              (\<forall>k. present (Map s) k \<longrightarrow> present (Map s') k) \<and>
              (\<exists>ys. nan_entries (Map s') = nan_entries (Map s) @ ys)"
  let ?E = "\<lambda>e::ending. e = Result None \<or> (\<exists>r. e = Crash r) \<or> e = Never"
  have "caller_keeps ?I ?R ?E (Get t k)" for t k
    by (rule Get_keeps) simp_all
  moreover have "caller_keeps ?I ?R ?E (Set t k v)" for t k v
    by (rule Set_keeps) (simp_all add: present_assign nan_entries_assign)
  moreover have "caller_keeps ?I ?R ?E (Update t k v)" for t k v
    by (rule Update_keeps) (simp_all add: present_assign nan_entries_assign)
  moreover have "caller_keeps ?I ?R ?E (SetUpdateValueFunc f)" for f
    by (rule SetUpdateValueFunc_keeps) simp
  moreover have "caller_keeps ?I ?R ?E Stop"
    by (rule Stop_keeps)
  ultimately show ?thesis
    using assms unfolding builtin_def by (elim disjE exE) simp_all
qed


lemma spares_keeps:
  fixes c :: "('k, 'v::zero) caller"
  assumes "spares k c"
  shows "caller_keeps (\<lambda>s. True) (\<lambda>s s'. \<not> present (Map s) k \<longrightarrow> \<not> present (Map s') k)
           (\<lambda>e. True) c"
proof -
  let ?I = "\<lambda>s::('k, 'v) pmap. True"
  let ?R = "\<lambda>(s::('k, 'v) pmap) (s'::('k, 'v) pmap). \<not> present (Map s) k \<longrightarrow> \<not> present (Map s') k"
  let ?E = "\<lambda>e::ending. True"
  have "caller_keeps ?I ?R ?E (Get t k')" for t k'
    by (rule Get_keeps) simp_all
  moreover have "k' \<noteq> k \<or> k' = NaN \<Longrightarrow> caller_keeps ?I ?R ?E (Set t k' v)" for t v k'
    by (rule Set_keeps) (auto simp add: present_assign)
  moreover have "k' \<noteq> k \<or> k' = NaN \<Longrightarrow> caller_keeps ?I ?R ?E (Update t k' v)" for t v k'
    by (rule Update_keeps) (auto simp add: present_assign)
  moreover have "caller_keeps ?I ?R ?E (SetUpdateValueFunc f)" for f
    by (rule SetUpdateValueFunc_keeps) simp
  moreover have "caller_keeps ?I ?R ?E Stop"
    by (rule Stop_keeps)
  moreover have "\<forall>m. \<not> present m k \<longrightarrow> \<not> present (snd (f m)) k \<Longrightarrow> caller_keeps ?I ?R ?E (ExecuteFunc t f)" for t f
    by (rule ExecuteFunc_keeps) auto
  ultimately show ?thesis
    using assms unfolding spares_def by (elim disjE exE conjE) simp_all
qed

lemma builtin_run:
  assumes "\<forall>p \<in> set ps. \<forall>c \<in> set p. builtin c" and "run as (start m ps) = Some s1"
  shows "sys_keeps (\<lambda>s. True)
           (\<lambda>s s'. (\<forall>k. present (Map s) k \<longrightarrow> present (Map s') k) \<and>
                    (\<exists>ys. nan_entries (Map s') = nan_entries (Map s) @ ys))
           (\<lambda>e. e = Result None \<or> (\<exists>r. e = Crash r) \<or> e = Never) s1"
proof -
  let ?I = "\<lambda>s::('a, 'b) pmap. True"
  let ?R = "\<lambda>(s::('a, 'b) pmap) (s'::('a, 'b) pmap).
              (\<forall>k. present (Map s) k \<longrightarrow> present (Map s') k) \<and>
              (\<exists>ys. nan_entries (Map s') = nan_entries (Map s) @ ys)"
  let ?E = "\<lambda>e::ending. e = Result None \<or> (\<exists>r. e = Crash r) \<or> e = Never"
  have 0: "sys_keeps ?I ?R ?E (start m ps)"
    using assms(1) by (intro start_keeps) (simp_all add: builtin_keeps_entries)
  have 1: "\<forall>x. ?R x x" by simp
  have 2: "\<forall>x y z. ?R x y \<longrightarrow> ?R y z \<longrightarrow> ?R x z" by auto
  from run_keeps [OF 0 assms(2) 1 2] show ?thesis by (rule conjunct1)
qed

lemma builtin_methods:
  "builtin (Get t k)" "builtin (Set t k v)" "builtin (Update t k v)"
  "builtin (SetUpdateValueFunc f)" "builtin Stop"
  unfolding builtin_def by blast+


lemma spares_methods:
  "spares k (Get t k')" "k' \<noteq> k \<or> k' = NaN \<Longrightarrow> spares k (Set t k' v)"
  "k' \<noteq> k \<or> k' = NaN \<Longrightarrow> spares k (Update t k' v)"
  "spares k (SetUpdateValueFunc f)" "spares k Stop"
  unfolding spares_def by blast+

section \<open>The tally of concurrent updates\<close>













































lemma absent_index: "\<not> present m k \<Longrightarrow> map_index m k = (0, False)"
  by (cases k) auto



section \<open>Properties\<close>




text \<open>
  C2, as amended. A call \<open>Update(k, v)\<close> with the update function \<open>C\<close> installed, when
  the lookup finds \<open>existingValue\<close> under \<open>k\<close>: if \<open>C(existingValue, v)\<close> returns \<open>r\<close>, the
  call stores \<open>r\<close> and returns; if it panics, nothing is stored, the report is printed,
  the process ends with status 2 and the call does not return; if it never returns,
  nothing is stored and the call does not return, whatever the other goroutines do.
  When the lookup finds nothing, the call stores \<open>v\<close> and returns, whatever \<open>C\<close> is:
  \<open>C\<close> is not applied, also when every call of it would panic.
\<close>

theorem Update_contract:
  assumes "t < length (threads s)"
    and "prog (threads s ! t) = Update t k v # rest"
    and "backend s = None" and "exited s = None"
    and "UpdateValueFunc (pm s) = C"
  shows "(\<forall>existingValue r.
            map_index (Map (pm s)) k = (existingValue, True) \<longrightarrow> C existingValue v = Returned r \<longrightarrow>
              run (alone t 4) s =
                Some (s\<lparr>pm := (pm s)\<lparr>Map := map_assign (Map (pm s)) k r\<rparr>,
                        threads := (threads s)[t := (threads s ! t)
                           \<lparr>prog := rest, results := results (threads s ! t) @ [[]]\<rparr>]\<rparr>)) \<and>
         (\<forall>existingValue report.
            map_index (Map (pm s)) k = (existingValue, True) \<longrightarrow> C existingValue v = Panics report \<longrightarrow>
              (\<exists>s'. run [Thread t, Handoff t, Backend, Backend] s = Some s' \<and>
                    Map (pm s') = Map (pm s) \<and>
                    stderr s' = stderr s @ report \<and> exited s' = Some 2 \<and>
                    results (threads s' ! t) = results (threads s ! t) \<and>
                    (\<forall>a. step a s' = None))) \<and>
         (\<forall>existingValue.
            map_index (Map (pm s)) k = (existingValue, True) \<longrightarrow> C existingValue v = Hangs \<longrightarrow>
              (\<exists>s'. run [Thread t, Handoff t, Backend] s = Some s' \<and>
                    Map (pm s') = Map (pm s) \<and>
                    (\<forall>bs s''. run bs s' = Some s'' \<longrightarrow>
                       backend s'' = Some Hang \<and>
                       prog (threads s'' ! t) = Recv (Chan t 0) (\<lambda>_. Returns []) # rest \<and>
                       results (threads s'' ! t) = results (threads s ! t)))) \<and>
         (snd (map_index (Map (pm s)) k) = False \<longrightarrow>
            run (alone t 4) s =
              Some (s\<lparr>pm := (pm s)\<lparr>Map := map_assign (Map (pm s)) k v\<rparr>,
                      threads := (threads s)[t := (threads s ! t)
                         \<lparr>prog := rest, results := results (threads s ! t) @ [[]]\<rparr>]\<rparr>))"
proof (intro conjI allI impI)
  fix existingValue r
  assume "map_index (Map (pm s)) k = (existingValue, True)" and "C existingValue v = Returned r"
  with assms(5) have "(case map_index (Map (pm s)) k of (oldValue, ok) \<Rightarrow>
            if ok then UpdateValueFunc (pm s) oldValue v else Returned v) = Returned r"
    by simp
  with assms(1-4) show "run (alone t 4) s =
      Some (s\<lparr>pm := (pm s)\<lparr>Map := map_assign (Map (pm s)) k r\<rparr>,
              threads := (threads s)[t := (threads s ! t)
                 \<lparr>prog := rest, results := results (threads s ! t) @ [[]]\<rparr>]\<rparr>)"
    by (rule Update_alone)
next
  fix existingValue report
  assume m: "map_index (Map (pm s)) k = (existingValue, True)" and "C existingValue v = Panics report"
  with assms(5) have "UpdateValueFunc (pm s) existingValue v = Panics report" by simp
  from Update_panics [OF assms(1-4) m this] assms(1)
  show "\<exists>s'. run [Thread t, Handoff t, Backend, Backend] s = Some s' \<and>
          Map (pm s') = Map (pm s) \<and>
          stderr s' = stderr s @ report \<and> exited s' = Some 2 \<and>
          results (threads s' ! t) = results (threads s ! t) \<and>
          (\<forall>a. step a s' = None)"
    by (simp add: step_after_exit)
next
  fix existingValue
  assume m: "map_index (Map (pm s)) k = (existingValue, True)" and "C existingValue v = Hangs"
  with assms(5) have "UpdateValueFunc (pm s) existingValue v = Hangs" by simp
  note r = Update_hangs [OF assms(1-4) m this]
  let ?s' = "s\<lparr>pm := (pm s)\<lparr>wg := wg (pm s) + 1\<rparr>,
            threads := (threads s)[t := (threads s ! t)\<lparr>prog := Recv (Chan t 0) (\<lambda>_. Returns []) # rest\<rparr>],
            backend := Some Hang\<rparr>"
  have h: "backend ?s' = Some Hang" "t < length (threads ?s')"
    "prog (threads ?s' ! t) = Recv (Chan t 0) (\<lambda>_. Returns []) # rest" "exited ?s' = None"
    using assms(1,4) by simp_all
  have "backend s'' = Some Hang \<and>
        prog (threads s'' ! t) = Recv (Chan t 0) (\<lambda>_. Returns []) # rest \<and>
        results (threads s'' ! t) = results (threads s ! t)"
    if "run bs ?s' = Some s''" for bs s''
    using hang_run [OF h that] assms(1) by simp
  with r show "\<exists>s'. run [Thread t, Handoff t, Backend] s = Some s' \<and>
          Map (pm s') = Map (pm s) \<and>
          (\<forall>bs s''. run bs s' = Some s'' \<longrightarrow>
             backend s'' = Some Hang \<and>
             prog (threads s'' ! t) = Recv (Chan t 0) (\<lambda>_. Returns []) # rest \<and>
             results (threads s'' ! t) = results (threads s ! t))"
    by simp
next
  assume "snd (map_index (Map (pm s)) k) = False"
  then have "(case map_index (Map (pm s)) k of (oldValue, ok) \<Rightarrow>
            if ok then UpdateValueFunc (pm s) oldValue v else Returned v) = Returned v"
    by (cases "map_index (Map (pm s)) k") simp
  with assms(1-4) show "run (alone t 4) s =
      Some (s\<lparr>pm := (pm s)\<lparr>Map := map_assign (Map (pm s)) k v\<rparr>,
              threads := (threads s)[t := (threads s ! t)
                 \<lparr>prog := rest, results := results (threads s ! t) @ [[]]\<rparr>]\<rparr>)"
    by (rule Update_alone)
qed

theorem Update_contract_witness:
  "(0 < length (threads birthday) \<and> prog (threads birthday ! 0) = Update 0 (Key ''age'') (IntV 1) # [] \<and>
    backend birthday = None \<and> exited birthday = None \<and>
    UpdateValueFunc (pm birthday) = add_ints \<and>
    map_index (Map (pm birthday)) (Key ''age'') = (IntV 26, True) \<and>
    add_ints (IntV 26) (IntV 1) = Returned (IntV 27) \<and>
    (\<exists>s'. run (alone 0 4) birthday = Some s' \<and>
          Map (pm s') = \<lparr>entries = [''age'' \<mapsto> IntV 27], nan_entries = []\<rparr> \<and>
          prog (threads s' ! 0) = [] \<and> results (threads s' ! 0) = [[]])) \<and>
   (0 < length (threads spelled) \<and> prog (threads spelled ! 0) = Update 0 (Key ''age'') (IntV 1) # [] \<and>
    backend spelled = None \<and> exited spelled = None \<and>
    UpdateValueFunc (pm spelled) = add_ints \<and>
    map_index (Map (pm spelled)) (Key ''age'') = (StringV ''26'', True) \<and>
    add_ints (StringV ''26'') (IntV 1) = Panics (conversion_panic (StringV ''26'')) \<and>
    (\<exists>s'. run [Thread 0, Handoff 0, Backend, Backend] spelled = Some s' \<and>
          Map (pm s') = Map (pm spelled) \<and>
          stderr s' = conversion_panic (StringV ''26'') \<and> exited s' = Some 2 \<and>
          results (threads s' ! 0) = [])) \<and>
   (0 < length (threads stalled) \<and> prog (threads stalled ! 0) = Update 0 (Key ''age'') (IntV 1) # [] \<and>
    backend stalled = None \<and> exited stalled = None \<and>
    UpdateValueFunc (pm stalled) = blocks \<and>
    map_index (Map (pm stalled)) (Key ''age'') = (IntV 26, True) \<and>
    blocks (IntV 26) (IntV 1) = Hangs \<and>
    (\<exists>s'. run [Thread 0, Handoff 0, Backend] stalled = Some s' \<and>
          Map (pm s') = Map (pm stalled) \<and> run [] s' = Some s' \<and>
          backend s' = Some Hang \<and> results (threads s' ! 0) = [])) \<and>
   (0 < length (threads first_update) \<and>
    prog (threads first_update ! 0) = Update 0 (Key ''age'') (IntV 1) # [] \<and>
    backend first_update = None \<and> exited first_update = None \<and>
    UpdateValueFunc (pm first_update) = add_ints \<and>
    snd (map_index (Map (pm first_update)) (Key ''age'')) = False \<and>
    add_ints NilV (IntV 1) = Panics (conversion_panic NilV) \<and>
    (\<exists>s'. run (alone 0 4) first_update = Some s' \<and>
          Map (pm s') = \<lparr>entries = [''age'' \<mapsto> IntV 1], nan_entries = []\<rparr> \<and>
          prog (threads s' ! 0) = [] \<and> results (threads s' ! 0) = [[]]))"
proof -
  have 1: "0 < length (threads birthday) \<and> prog (threads birthday ! 0) = Update 0 (Key ''age'') (IntV 1) # [] \<and>
    backend birthday = None \<and> exited birthday = None \<and>
    UpdateValueFunc (pm birthday) = add_ints \<and>
    map_index (Map (pm birthday)) (Key ''age'') = (IntV 26, True) \<and>
    add_ints (IntV 26) (IntV 1) = Returned (IntV 27) \<and>
    (\<exists>s'. run (alone 0 4) birthday = Some s' \<and>
          Map (pm s') = \<lparr>entries = [''age'' \<mapsto> IntV 27], nan_entries = []\<rparr> \<and>
          prog (threads s' ! 0) = [] \<and> results (threads s' ! 0) = [[]])"
    using Update_contract [of 0 birthday "Key ''age''" "IntV 1" "[]" add_ints]
    by (simp add: birthday_def start_def NewParallelMap_def)
  have 2: "0 < length (threads spelled) \<and> prog (threads spelled ! 0) = Update 0 (Key ''age'') (IntV 1) # [] \<and>
    backend spelled = None \<and> exited spelled = None \<and>
    UpdateValueFunc (pm spelled) = add_ints \<and>
    map_index (Map (pm spelled)) (Key ''age'') = (StringV ''26'', True) \<and>
    add_ints (StringV ''26'') (IntV 1) = Panics (conversion_panic (StringV ''26'')) \<and>
    (\<exists>s'. run [Thread 0, Handoff 0, Backend, Backend] spelled = Some s' \<and>
          Map (pm s') = Map (pm spelled) \<and>
          stderr s' = conversion_panic (StringV ''26'') \<and> exited s' = Some 2 \<and>
          results (threads s' ! 0) = [])"
    using Update_contract [of 0 spelled "Key ''age''" "IntV 1" "[]" add_ints]
    by (simp add: spelled_def start_def NewParallelMap_def) blast
  have p: "0 < length (threads stalled)"
    "prog (threads stalled ! 0) = Update 0 (Key ''age'') (IntV 1) # []"
    "backend stalled = None" "exited stalled = None" "UpdateValueFunc (pm stalled) = blocks"
    and m: "map_index (Map (pm stalled)) (Key ''age'') = (IntV 26, True)"
    and h: "blocks (IntV 26) (IntV 1) = Hangs"
    and e: "results (threads stalled ! 0) = []"
    by (simp_all add: stalled_def blocks_def start_def NewParallelMap_def)
  from Update_contract [OF p] m h
  have "\<exists>s'. run [Thread 0, Handoff 0, Backend] stalled = Some s' \<and>
          Map (pm s') = Map (pm stalled) \<and>
          (\<forall>bs s''. run bs s' = Some s'' \<longrightarrow>
             backend s'' = Some Hang \<and>
             prog (threads s'' ! 0) = Recv (Chan 0 0) (\<lambda>_. Returns []) # [] \<and>
             results (threads s'' ! 0) = results (threads stalled ! 0))"
    by blast
  then obtain s' where r: "run [Thread 0, Handoff 0, Backend] stalled = Some s'"
    and k: "Map (pm s') = Map (pm stalled)"
    and f: "\<forall>bs s''. run bs s' = Some s'' \<longrightarrow>
             backend s'' = Some Hang \<and>
             prog (threads s'' ! 0) = Recv (Chan 0 0) (\<lambda>_. Returns []) # [] \<and>
             results (threads s'' ! 0) = results (threads stalled ! 0)"
    by (elim exE conjE)
  have n: "run [] s' = Some s'" by simp
  from f n have "backend s' = Some Hang \<and>
             prog (threads s' ! 0) = Recv (Chan 0 0) (\<lambda>_. Returns []) # [] \<and>
             results (threads s' ! 0) = results (threads stalled ! 0)"
    by (elim allE impE)
  with e have b: "backend s' = Some Hang" and q: "results (threads s' ! 0) = []"
    by simp_all
  have "\<exists>s'. run [Thread 0, Handoff 0, Backend] stalled = Some s' \<and>
          Map (pm s') = Map (pm stalled) \<and> run [] s' = Some s' \<and>
          backend s' = Some Hang \<and> results (threads s' ! 0) = []"
    by (rule exI [of _ s']) (intro conjI r k n b q)
  with p m h
  have 3: "0 < length (threads stalled) \<and> prog (threads stalled ! 0) = Update 0 (Key ''age'') (IntV 1) # [] \<and>
    backend stalled = None \<and> exited stalled = None \<and>
    UpdateValueFunc (pm stalled) = blocks \<and>
    map_index (Map (pm stalled)) (Key ''age'') = (IntV 26, True) \<and>
    blocks (IntV 26) (IntV 1) = Hangs \<and>
    (\<exists>s'. run [Thread 0, Handoff 0, Backend] stalled = Some s' \<and>
          Map (pm s') = Map (pm stalled) \<and> run [] s' = Some s' \<and>
          backend s' = Some Hang \<and> results (threads s' ! 0) = [])"
    by (intro conjI)
  have 4: "0 < length (threads first_update) \<and>
    prog (threads first_update ! 0) = Update 0 (Key ''age'') (IntV 1) # [] \<and>
    backend first_update = None \<and> exited first_update = None \<and>
    UpdateValueFunc (pm first_update) = add_ints \<and>
    snd (map_index (Map (pm first_update)) (Key ''age'')) = False \<and>
    add_ints NilV (IntV 1) = Panics (conversion_panic NilV) \<and>
    (\<exists>s'. run (alone 0 4) first_update = Some s' \<and>
          Map (pm s') = \<lparr>entries = [''age'' \<mapsto> IntV 1], nan_entries = []\<rparr> \<and>
          prog (threads s' ! 0) = [] \<and> results (threads s' ! 0) = [[]])"
    using Update_contract [of 0 first_update "Key ''age''" "IntV 1" "[]" add_ints]
    by (simp add: first_update_def start_def NewParallelMap_def)
  show ?thesis
    by (rule conjI [OF 1 conjI [OF 2 conjI [OF 3 4]]])
qed

text \<open>
  C2, as stated, fails for an update function that panics, such as the one of the
  README on a value that is not an \<^verbatim>\<open>int\<close>. The key is in the map, with a string
  under it, and \<open>Update(k, 1)\<close> stores nothing: the map is as it was, the process has
  ended with status 2 and the report on standard error, and the call has not returned.
\<close>

theorem Update_panic_counterexample:
  "UpdateValueFunc (pm spelled) = add_ints \<and>
   map_index (Map (pm spelled)) (Key ''age'') = (StringV ''26'', True) \<and>
   (case run [Thread 0, Handoff 0, Backend, Backend] spelled of
      None \<Rightarrow> False
    | Some s' \<Rightarrow>
        map_index (Map (pm s')) (Key ''age'') = (StringV ''26'', True) \<and>
        Map (pm s') = Map (pm spelled) \<and>
        exited s' = Some 2 \<and>
        stderr s' = ''panic: interface conversion: interface {} is string, not int'' @ [CHR 0x0A] \<and>
        prog (threads s' ! 0) = [Recv (Chan 0 0) (\<lambda>_. Returns [])] \<and>
        results (threads s' ! 0) = [])"
  by (simp add: spelled_def start_def NewParallelMap_def sem_defs method_defs conversion_panic_def)

text \<open>
  C3, as amended. An \<open>Update\<close> unit of work is run with the update function that is
  installed when the actor runs it: a call of \<open>SetUpdateValueFunc\<close> that returns after
  the actor has accepted the unit and before it runs it decides what that unit stores.
\<close>

theorem Update_uses_current_combinator:
  assumes "backend s = Some (Update_work t k v)"
    and "t' < length (threads s)" and "prog (threads s ! t') = SetUpdateValueFunc g # rest"
    and "exited s = None"
  shows "\<exists>s'. run [Thread t', Thread t', Backend] s = Some s' \<and>
           prog (threads s' ! t') = rest \<and>
           (case map_index (Map (pm s)) k of (existingValue, ok) \<Rightarrow>
              (case (if ok then g existingValue v else Returned v) of
                 Returned r \<Rightarrow> Map (pm s') = map_assign (Map (pm s)) k r
               | Panics report \<Rightarrow> Map (pm s') = Map (pm s) \<and> backend s' = Some (Panic report)
               | Hangs \<Rightarrow> Map (pm s') = Map (pm s) \<and> backend s' = Some Hang))"
proof -
  let ?s1 = "s\<lparr>pm := (pm s)\<lparr>UpdateValueFunc := g\<rparr>,
            threads := (threads s)[t' := (threads s ! t')\<lparr>prog := rest, results := results (threads s ! t') @ [[]]\<rparr>]\<rparr>"
  obtain existingValue ok where m: "map_index (Map (pm s)) k = (existingValue, ok)"
    by (cases "map_index (Map (pm s)) k")
  have 1: "run [Thread t', Thread t'] s = Some ?s1"
    using assms(2,3,4) by (rule SetUpdateValueFunc_steps)
  have b: "backend ?s1 = Some (Update_work t k v)" and e: "exited ?s1 = None"
    using assms by simp_all
  have "\<exists>s'. step Backend ?s1 = Some s' \<and> prog (threads s' ! t') = rest \<and>
          (case (if ok then g existingValue v else Returned v) of
             Returned r \<Rightarrow> Map (pm s') = map_assign (Map (pm s)) k r
           | Panics report \<Rightarrow> Map (pm s') = Map (pm s) \<and> backend s' = Some (Panic report)
           | Hangs \<Rightarrow> Map (pm s') = Map (pm s) \<and> backend s' = Some Hang)"
  proof (cases "if ok then g existingValue v else Returned v")
    case (Returned r)
    with m have "(case map_index (Map (pm ?s1)) k of (oldValue, ok) \<Rightarrow>
            if ok then UpdateValueFunc (pm ?s1) oldValue v else Returned v) = Returned r"
      by (cases ok) simp_all
    from Update_work_returns [OF b e this] Returned assms(2) show ?thesis by simp
  next
    case (Panics report)
    then have ok: "ok" and g: "g existingValue v = Panics report"
      by (simp_all split: if_splits)
    from m ok have "map_index (Map (pm ?s1)) k = (existingValue, True)" by simp
    moreover from g have "UpdateValueFunc (pm ?s1) existingValue v = Panics report" by simp
    ultimately have "step Backend ?s1 = Some (?s1\<lparr>backend := Some (Panic report)\<rparr>)"
      by (rule Update_work_panics [OF b e])
    with Panics assms(2) show ?thesis by simp
  next
    case Hangs
    then have ok: "ok" and g: "g existingValue v = Hangs"
      by (simp_all split: if_splits)
    from m ok have "map_index (Map (pm ?s1)) k = (existingValue, True)" by simp
    moreover from g have "UpdateValueFunc (pm ?s1) existingValue v = Hangs" by simp
    ultimately have "step Backend ?s1 = Some (?s1\<lparr>backend := Some Hang\<rparr>)"
      by (rule Update_work_hangs [OF b e])
    with Hangs assms(2) show ?thesis by simp
  qed
  then have "\<exists>s'. run [Backend] ?s1 = Some s' \<and> prog (threads s' ! t') = rest \<and>
          (case (if ok then g existingValue v else Returned v) of
             Returned r \<Rightarrow> Map (pm s') = map_assign (Map (pm s)) k r
           | Panics report \<Rightarrow> Map (pm s') = Map (pm s) \<and> backend s' = Some (Panic report)
           | Hangs \<Rightarrow> Map (pm s') = Map (pm s) \<and> backend s' = Some Hang)"
    by auto
  then show ?thesis
    using run_append [of "[Thread t', Thread t']" "[Backend]" s] unfolding 1 m by simp
qed

theorem Update_uses_current_combinator_witness:
  "backend accepted = Some (Update_work 0 (Key ''k'') (IntV 5)) \<and>
   1 < length (threads accepted) \<and>
   prog (threads accepted ! 1) = SetUpdateValueFunc add_ints # [] \<and>
   exited accepted = None \<and>
   (\<exists>s'. run [Thread 1, Thread 1, Backend] accepted = Some s' \<and>
         prog (threads s' ! 1) = [] \<and>
         Map (pm s') = \<lparr>entries = [''k'' \<mapsto> IntV 6], nan_entries = []\<rparr>)"
  using Update_uses_current_combinator [of accepted 0 "Key ''k''" "IntV 5" 1 add_ints "[]"]
  by (simp add: accepted_def)

text \<open>
  C3, as stated, fails. Goroutine 0 has stored 1 under \<open>k\<close> and calls \<open>Update(k, 5)\<close>;
  the actor accepts the unit of work while the update function is still the one from
  construction, under which \<open>Update\<close> would store 5. Goroutine 1 then calls
  \<open>SetUpdateValueFunc\<close> with addition, and the unit, run after that call has returned,
  stores 6.
\<close>

theorem combinator_at_enqueue_counterexample:
  "(case run (alone 0 4 @ [Thread 0, Handoff 0]) race of
      None \<Rightarrow> False
    | Some s1 \<Rightarrow>
        backend s1 = Some (Update_work 0 (Key ''k'') (IntV 5)) \<and>
        entries (Map (pm s1)) ''k'' = Some (IntV 1) \<and>
        UpdateValueFunc (pm s1) (IntV 1) (IntV 5) = Returned (IntV 5) \<and>
        (case run [Thread 1, Thread 1, Backend] s1 of
           None \<Rightarrow> False
         | Some s2 \<Rightarrow> entries (Map (pm s2)) ''k'' = Some (IntV 6)))"
  by (simp add: race_def start_def NewParallelMap_def eval_nat_numeral sem_defs method_defs)

text \<open>
  C4. While the update function is the one \<open>NewParallelMap\<close> installed, a call
  \<open>Update(k, v)\<close> and a call \<open>Set(k, v)\<close> made in its place lead to the same state of
  the whole system, for every key, value and container.
\<close>

theorem Update_is_Set_by_default:
  fixes s :: "('k, 'v::zero) sys"
  assumes "t < length (threads s)"
    and "prog (threads s ! t) = Update t k v # rest"
    and "backend s = None" and "exited s = None"
    and "UpdateValueFunc (pm s) = UpdateValueFunc (NewParallelMap :: ('k, 'v) pmap)"
  shows "\<exists>s'. run (alone t 4) s = Some s' \<and>
           run (alone t 4) (s\<lparr>threads := (threads s)[t := (threads s ! t)\<lparr>prog := Set t k v # rest\<rparr>]\<rparr>)
             = Some s'"
proof -
  have "(case map_index (Map (pm s)) k of (oldValue, ok) \<Rightarrow>
            if ok then UpdateValueFunc (pm s) oldValue v else Returned v) = Returned v"
    using assms(5) by (cases "map_index (Map (pm s)) k") (simp add: NewParallelMap_def)
  from Update_alone [OF assms(1-4) this] assms(1,3,4) show ?thesis
    by (simp add: Set_alone)
qed

theorem Update_is_Set_by_default_witness:
  "0 < length (threads overwrite) \<and>
   prog (threads overwrite ! 0) = Update 0 (Key ''age'') (IntV 1) # [] \<and>
   backend overwrite = None \<and> exited overwrite = None \<and>
   UpdateValueFunc (pm overwrite) = UpdateValueFunc (NewParallelMap :: (string, val) pmap) \<and>
   (\<exists>s'. run (alone 0 4) overwrite = Some s' \<and>
         run (alone 0 4)
           (overwrite\<lparr>threads := (threads overwrite)
              [0 := (threads overwrite ! 0)\<lparr>prog := Set 0 (Key ''age'') (IntV 1) # []\<rparr>]\<rparr>) = Some s')"
  using Update_is_Set_by_default [of 0 overwrite "Key ''age''" "IntV 1" "[]"]
  by (simp add: overwrite_def start_def NewParallelMap_def)




text \<open>
  C6. When a unit of work returns an error, the backend appends the text of the error
  and a newline to standard error and the process exits with status 1; no goroutine
  is handed anything at that step and no step follows it. For \<open>ExecuteFunc\<close> with a
  function that fails, the call has returned no value when the process exits.
\<close>

theorem failure_is_fatal:
  "(backend s = Some (Return (Some e)) \<longrightarrow> exited s = None \<longrightarrow>
      (\<exists>s'. step Backend s = Some s' \<and>
            stderr s' = stderr s @ e @ [CHR 0x0A] \<and> exited s' = Some 1 \<and>
            threads s' = threads s \<and> (\<forall>a. step a s' = None))) \<and>
   (t < length (threads s) \<longrightarrow> prog (threads s ! t) = ExecuteFunc t f # rest \<longrightarrow>
    backend s = None \<longrightarrow> exited s = None \<longrightarrow> fst (f (Map (pm s))) = Some e \<longrightarrow>
      (\<exists>s'. run [Thread t, Handoff t, Backend, Backend, Thread t, Backend, Backend] s = Some s' \<and>
            results (threads s' ! t) = results (threads s ! t) @ [[]] \<and>
            stderr s' = stderr s @ e @ [CHR 0x0A] \<and> exited s' = Some 1))"
proof (intro conjI impI)
  assume "backend s = Some (Return (Some e))" and "exited s = None"
  then show "\<exists>s'. step Backend s = Some s' \<and>
            stderr s' = stderr s @ e @ [CHR 0x0A] \<and> exited s' = Some 1 \<and>
            threads s' = threads s \<and> (\<forall>a. step a s' = None)"
    by (simp add: backend_fatal step_after_exit)
next
  assume a: "t < length (threads s)" "prog (threads s ! t) = ExecuteFunc t f # rest"
    "backend s = None" "exited s = None" and e: "fst (f (Map (pm s))) = Some e"
  let ?s2 = "s\<lparr>pm := (pm s)\<lparr>Map := snd (f (Map (pm s))), wg := wg (pm s) + 1\<rparr>,
            threads := (threads s)[t := (threads s ! t)\<lparr>prog := Returns [] # rest\<rparr>],
            backend := Some (wg_Done (Return (fst (f (Map (pm s))))))\<rparr>"
  have 1: "run [Thread t, Handoff t, Backend, Backend] s = Some ?s2"
    using a by (rule ExecuteFunc_prefix)
  have 2: "run [Thread t, Backend, Backend] ?s2 =
     Some (?s2\<lparr>pm := (pm ?s2)\<lparr>wg := wg (pm s)\<rparr>,
               threads := (threads s)[t := (threads s ! t)\<lparr>prog := rest, results := results (threads s ! t) @ [[]]\<rparr>],
               backend := Some (Return (Some e)),
               stderr := stderr s @ e @ [CHR 0x0A], exited := Some 1\<rparr>)"
    using a e by (simp add: sem_defs)
  have "run ([Thread t, Handoff t, Backend, Backend] @ [Thread t, Backend, Backend]) s =
     Some (?s2\<lparr>pm := (pm ?s2)\<lparr>wg := wg (pm s)\<rparr>,
               threads := (threads s)[t := (threads s ! t)\<lparr>prog := rest, results := results (threads s ! t) @ [[]]\<rparr>],
               backend := Some (Return (Some e)),
               stderr := stderr s @ e @ [CHR 0x0A], exited := Some 1\<rparr>)"
    unfolding run_append 1 using 2 by simp
  then show "\<exists>s'. run [Thread t, Handoff t, Backend, Backend, Thread t, Backend, Backend] s = Some s' \<and>
            results (threads s' ! t) = results (threads s ! t) @ [[]] \<and>
            stderr s' = stderr s @ e @ [CHR 0x0A] \<and> exited s' = Some 1"
    using a by simp
qed

theorem failure_is_fatal_witness:
  "(backend (doomed\<lparr>backend := Some (Return (Some ''boom''))\<rparr>) = Some (Return (Some ''boom'')) \<and>
    exited (doomed\<lparr>backend := Some (Return (Some ''boom''))\<rparr>) = None \<and>
    (\<exists>s'. step Backend (doomed\<lparr>backend := Some (Return (Some ''boom''))\<rparr>) = Some s' \<and>
          stderr s' = ''boom'' @ [CHR 0x0A] \<and> exited s' = Some 1 \<and> (\<forall>a. step a s' = None))) \<and>
   (0 < length (threads doomed) \<and> prog (threads doomed ! 0) = ExecuteFunc 0 failing # [] \<and>
    backend doomed = None \<and> exited doomed = None \<and>
    fst (failing (Map (pm doomed))) = Some ''boom'' \<and>
    (\<exists>s'. run [Thread 0, Handoff 0, Backend, Backend, Thread 0, Backend, Backend] doomed = Some s' \<and>
          results (threads s' ! 0) = [[]] \<and>
          stderr s' = ''boom'' @ [CHR 0x0A] \<and> exited s' = Some 1))"
  using failure_is_fatal [of "doomed\<lparr>backend := Some (Return (Some ''boom''))\<rparr>" "''boom''" 0 failing "[]"]
    failure_is_fatal [of doomed "''boom''" 0 failing "[]"]
  apply (simp add: doomed_def failing_def start_def)
  apply blast
  done




text \<open>
  C8. In a system whose goroutines call only \<open>Get\<close>, \<open>Set\<close>, \<open>Update\<close>,
  \<open>SetUpdateValueFunc\<close> and \<open>Stop\<close>, a key that is in the map at one point of an
  execution is in the map at every later point: no such operation removes an entry.
  The same holds of the entries under keys that do not equal themselves.
\<close>

theorem keys_only_grow:
  assumes "\<forall>p \<in> set ps. \<forall>c \<in> set p. builtin c"
    and "run as (start m ps) = Some s1" and "run bs s1 = Some s2"
  shows "dom (entries (Map (pm s1))) \<subseteq> dom (entries (Map (pm s2))) \<and>
         (\<forall>k. present (Map (pm s1)) k \<longrightarrow> present (Map (pm s2)) k) \<and>
         (\<exists>ys. nan_entries (Map (pm s2)) = nan_entries (Map (pm s1)) @ ys)"
proof -
  let ?I = "\<lambda>s::('a, 'b) pmap. True"
  let ?R = "\<lambda>(s::('a, 'b) pmap) (s'::('a, 'b) pmap).
              (\<forall>k. present (Map s) k \<longrightarrow> present (Map s') k) \<and>
              (\<exists>ys. nan_entries (Map s') = nan_entries (Map s) @ ys)"
  have 0: "sys_keeps ?I ?R (\<lambda>e. e = Result None \<or> (\<exists>r. e = Crash r) \<or> e = Never) s1"
    using assms(1,2) by (rule builtin_run)
  have 1: "\<forall>x. ?R x x" by simp
  have 2: "\<forall>x y z. ?R x y \<longrightarrow> ?R y z \<longrightarrow> ?R x z" by auto
  from run_keeps [OF 0 assms(3) 1 2] have r: "?R (pm s1) (pm s2)"
    by (rule conjunct2)
  have "dom (entries (Map (pm s1))) \<subseteq> dom (entries (Map (pm s2)))"
  proof
    fix x assume "x \<in> dom (entries (Map (pm s1)))"
    then have "present (Map (pm s1)) (Key x)" by auto
    with r have "present (Map (pm s2)) (Key x)" by blast
    then show "x \<in> dom (entries (Map (pm s2)))" by auto
  qed
  with r show ?thesis by blast
qed

theorem keys_only_grow_witness:
  "\<exists>s1 s2. run (alone 0 4) (start NewParallelMap writer) = Some s1 \<and>
      run (alone 0 4 @ alone 0 4 @ alone 0 5) s1 = Some s2 \<and>
      ''a'' \<in> dom (entries (Map (pm s1))) \<and> ''a'' \<in> dom (entries (Map (pm s2))) \<and>
      ''b'' \<in> dom (entries (Map (pm s2))) \<and>
      dom (entries (Map (pm s1))) \<subseteq> dom (entries (Map (pm s2))) \<and>
      present (Map (pm s1)) (Key ''a'') \<and> present (Map (pm s2)) (Key ''a'') \<and>
      nan_entries (Map (pm s1)) = [] \<and> nan_entries (Map (pm s2)) = [] @ [IntV 3]"
proof -
  have b: "\<forall>p \<in> set writer. \<forall>c \<in> set p. builtin c"
    by (simp add: writer_def builtin_methods)
  have "\<exists>s1. run (alone 0 4) (start NewParallelMap writer) = Some s1 \<and>
          ''a'' \<in> dom (entries (Map (pm s1))) \<and> present (Map (pm s1)) (Key ''a'') \<and>
          nan_entries (Map (pm s1)) = [] \<and>
          (\<exists>s2. run (alone 0 4 @ alone 0 4 @ alone 0 5) s1 = Some s2 \<and>
             ''b'' \<in> dom (entries (Map (pm s2))) \<and>
             nan_entries (Map (pm s2)) = [] @ [IntV 3])"
    by (simp add: writer_def start_def NewParallelMap_def eval_nat_numeral sem_defs method_defs)
  then obtain s1 s2 where r1: "run (alone 0 4) (start NewParallelMap writer) = Some s1"
    and d1: "''a'' \<in> dom (entries (Map (pm s1)))" and k: "present (Map (pm s1)) (Key ''a'')"
    and n1: "nan_entries (Map (pm s1)) = []"
    and r2: "run (alone 0 4 @ alone 0 4 @ alone 0 5) s1 = Some s2"
    and d2: "''b'' \<in> dom (entries (Map (pm s2)))"
    and n2: "nan_entries (Map (pm s2)) = [] @ [IntV 3]"
    by (elim exE conjE)
  note g = keys_only_grow [OF b r1 r2]
  from g have sub: "dom (entries (Map (pm s1))) \<subseteq> dom (entries (Map (pm s2)))"
    by (rule conjunct1)
  from g have all: "\<forall>k. present (Map (pm s1)) k \<longrightarrow> present (Map (pm s2)) k"
    by (rule conjunct2 [THEN conjunct1])
  from all have "present (Map (pm s1)) (Key ''a'') \<longrightarrow> present (Map (pm s2)) (Key ''a'')"
    by (rule spec)
  from this k have k2: "present (Map (pm s2)) (Key ''a'')" by (rule mp)
  from sub d1 have d12: "''a'' \<in> dom (entries (Map (pm s2)))" by (rule subsetD)
  show ?thesis
    by (rule exI [of _ s1], rule exI [of _ s2]) (intro conjI r1 r2 d1 d12 d2 sub k k2 n1 n2)
qed

text \<open>
  C9. On a container made by \<open>NewParallelMap\<close>, after any execution of goroutines none
  of whose calls writes the key \<open>k\<close>, a call \<open>Get(k)\<close> returns the zero value and
  \<open>false\<close>.
\<close>

theorem Get_absent:
  assumes "\<forall>p \<in> set ps. \<forall>c \<in> set p. spares k c"
    and "run as (start NewParallelMap ps) = Some s"
    and "t < length (threads s)" and "prog (threads s ! t) = Get t k # rest"
    and "backend s = None" and "exited s = None"
  shows "\<exists>s'. run (alone t 5) s = Some s' \<and>
           results (threads s' ! t) = results (threads s ! t) @ [[MValue 0, MBool False]]"
proof -
  let ?I = "\<lambda>s::('a, 'b) pmap. True"
  let ?R = "\<lambda>(s::('a, 'b) pmap) (s'::('a, 'b) pmap). \<not> present (Map s) k \<longrightarrow> \<not> present (Map s') k"
  have 0: "sys_keeps ?I ?R (\<lambda>e. True) (start NewParallelMap ps)"
    using assms(1) by (intro start_keeps) (simp_all add: spares_keeps)
  have 1: "\<forall>x. ?R x x" by simp
  have 2: "\<forall>x y z. ?R x y \<longrightarrow> ?R y z \<longrightarrow> ?R x z" by simp
  from run_keeps [OF 0 assms(2) 1 2]
  have "\<not> present (Map (pm (start NewParallelMap ps))) k \<longrightarrow> \<not> present (Map (pm s)) k"
    by (rule conjunct2)
  moreover have "\<not> present (Map (pm (start NewParallelMap ps))) k"
    by (cases k) (simp_all add: start_def NewParallelMap_def)
  ultimately have "\<not> present (Map (pm s)) k" by simp
  then have "map_index (Map (pm s)) k = (0, False)" by (rule absent_index)
  with assms(3-6) show ?thesis
    by (simp add: Get_alone)
qed

theorem Get_absent_witness:
  "\<exists>s. run (alone 0 4 @ alone 0 4 @ alone 0 4) (start NewParallelMap writer) = Some s \<and>
      0 < length (threads s) \<and> prog (threads s ! 0) = Get 0 (Key ''c'') # [] \<and>
      backend s = None \<and> exited s = None \<and>
      (\<exists>s'. run (alone 0 5) s = Some s' \<and>
         results (threads s' ! 0) = results (threads s ! 0) @ [[MValue 0, MBool False]])"
proof -
  have b: "\<forall>p \<in> set writer. \<forall>c \<in> set p. spares (Key ''c'') c"
    by (simp add: writer_def spares_methods)
  have "\<exists>s. run (alone 0 4 @ alone 0 4 @ alone 0 4) (start NewParallelMap writer) = Some s \<and>
      0 < length (threads s) \<and> prog (threads s ! 0) = Get 0 (Key ''c'') # [] \<and>
      backend s = None \<and> exited s = None"
    by (simp add: writer_def start_def NewParallelMap_def eval_nat_numeral sem_defs
        Set_def Set_work_def Update_def Update_work_def)
  then obtain s where r: "run (alone 0 4 @ alone 0 4 @ alone 0 4) (start NewParallelMap writer) = Some s"
    and h: "0 < length (threads s)" "prog (threads s ! 0) = Get 0 (Key ''c'') # []"
      "backend s = None" "exited s = None"
    by blast
  from Get_absent [OF b r h] b r h show ?thesis by blast
qed

text \<open>
  C10. \<open>ExecuteFunc\<close> acknowledges before the backend looks at the error. After the
  function \<open>f\<close> has run and the acknowledgement was sent, the caller is past its receive;
  after the next step the counter is back to what it was before the call. At that point
  the error that \<open>f\<close> returned is still to be returned by the closure, nothing was
  printed and the process runs; the step after that is the backend's check, fatal when
  \<open>f\<close> failed.
\<close>

theorem ExecuteFunc_acknowledges_first:
  assumes "t < length (threads s)"
    and "prog (threads s ! t) = ExecuteFunc t f # rest"
    and "backend s = None" and "exited s = None"
  shows "\<exists>s2 s3. run [Thread t, Handoff t, Backend, Backend] s = Some s2 \<and>
           prog (threads s2 ! t) = Returns [] # rest \<and>
           step Backend s2 = Some s3 \<and>
           wg (pm s3) = wg (pm s) \<and>
           prog (threads s3 ! t) = Returns [] # rest \<and>
           backend s3 = Some (Return (fst (f (Map (pm s))))) \<and>
           exited s3 = None \<and> stderr s3 = stderr s \<and>
           (\<forall>e. fst (f (Map (pm s))) = Some e \<longrightarrow>
              (\<exists>s4. step Backend s3 = Some s4 \<and> exited s4 = Some 1 \<and>
                     stderr s4 = stderr s @ e @ [CHR 0x0A]))"
proof -
  let ?s2 = "s\<lparr>pm := (pm s)\<lparr>Map := snd (f (Map (pm s))), wg := wg (pm s) + 1\<rparr>,
            threads := (threads s)[t := (threads s ! t)\<lparr>prog := Returns [] # rest\<rparr>],
            backend := Some (wg_Done (Return (fst (f (Map (pm s))))))\<rparr>"
  let ?s3 = "?s2\<lparr>pm := (pm ?s2)\<lparr>wg := wg (pm s)\<rparr>, backend := Some (Return (fst (f (Map (pm s)))))\<rparr>"
  have "run [Thread t, Handoff t, Backend, Backend] s = Some ?s2"
    using assms by (rule ExecuteFunc_prefix)
  moreover have "prog (threads ?s2 ! t) = Returns [] # rest"
    using assms by simp
  moreover have "step Backend ?s2 = Some ?s3"
    using assms by (simp add: step_def backend_step_def wg_Done_def)
  moreover have "\<forall>e. fst (f (Map (pm s))) = Some e \<longrightarrow>
      (\<exists>s4. step Backend ?s3 = Some s4 \<and> exited s4 = Some 1 \<and> stderr s4 = stderr s @ e @ [CHR 0x0A])"
    using assms by (simp add: step_def backend_step_def)
  ultimately show ?thesis
    using assms by simp
qed

theorem ExecuteFunc_acknowledges_first_witness:
  "0 < length (threads doomed) \<and> prog (threads doomed ! 0) = ExecuteFunc 0 failing # [] \<and>
   backend doomed = None \<and> exited doomed = None \<and>
   (\<exists>s2 s3 s4. run [Thread 0, Handoff 0, Backend, Backend] doomed = Some s2 \<and>
      prog (threads s2 ! 0) = [Returns []] \<and>
      step Backend s2 = Some s3 \<and> wg (pm s3) = 0 \<and>
      backend s3 = Some (Return (Some ''boom'')) \<and> exited s3 = None \<and> stderr s3 = [] \<and>
      step Backend s3 = Some s4 \<and> exited s4 = Some 1 \<and> stderr s4 = ''boom'' @ [CHR 0x0A])"
  using ExecuteFunc_acknowledges_first [of 0 doomed failing "[]"]
  by (auto simp add: doomed_def failing_def start_def NewParallelMap_def)

end
